theory Spec2Isabelle
  imports Main "HOL-Library.Monad_Syntax"
begin

section \<open>The JavaScript values that script.js computes with\<close>

subsection \<open>Strings\<close>

text \<open>
  A string of the script is a sequence of UTF-16 code units. The model takes the code
  units below 256, one \<^typ>\<open>char\<close> each (so \<open>CHR 0xA0\<close> is the no-break space), which
  covers every character the panchangam file and the patterns of the script use.
  On this range the white space of \<open>String.prototype.trim\<close> and of the class \<open>\s\<close> is
  TAB, LF, VT, FF, CR, SP and NBSP; the line terminators, which the pattern character
  \<open>.\<close> refuses, are LF and CR; \<open>\d\<close> is an ASCII digit.
\<close>

definition isWhiteSpace :: "char \<Rightarrow> bool" where
  "isWhiteSpace c \<longleftrightarrow>
     c \<in> set [CHR 0x09, CHR 0x0A, CHR 0x0B, CHR 0x0C, CHR 0x0D, CHR 0x20, CHR 0xA0]"

definition isLineTerminator :: "char \<Rightarrow> bool" where
  "isLineTerminator c \<longleftrightarrow> c = CHR 0x0A \<or> c = CHR 0x0D"

definition isDigit :: "char \<Rightarrow> bool" where
  "isDigit c \<longleftrightarrow> c \<in> set ''0123456789''"

definition trim :: "string \<Rightarrow> string" where
  "trim s = rev (dropWhile isWhiteSpace (rev (dropWhile isWhiteSpace s)))"

text \<open>
  \<open>toLowerCase\<close> on code units below 256: the letters A to Z, and the Latin-1 capitals
  0xC0 to 0xDE without the multiplication sign 0xD7, move up by 32.
\<close>

definition toLowerChar :: "char \<Rightarrow> char" where
  "toLowerChar c =
     (let n = (of_char c :: nat)
      in if (65 \<le> n \<and> n \<le> 90) \<or> (192 \<le> n \<and> n \<le> 222 \<and> n \<noteq> 215)
         then char_of (n + 32) else c)"

definition toLowerCase :: "string \<Rightarrow> string" where
  "toLowerCase s = map toLowerChar s"

definition startsWith :: "string \<Rightarrow> string \<Rightarrow> bool" where
  "startsWith s p \<longleftrightarrow> take (length p) s = p"

text \<open>\<open>s.split(":")\<close>: the pieces between the colons; a string without colon is one piece.\<close>

fun split_colon :: "string \<Rightarrow> string list" where
  "split_colon [] = [[]]"
| "split_colon (c # cs) =
     (let rest = split_colon cs
      in if c = CHR '':'' then [] # rest else (c # hd rest) # tl rest)"

text \<open>\<open>parts.join(":")\<close>.\<close>

fun join_colon :: "string list \<Rightarrow> string" where
  "join_colon [] = []"
| "join_colon [p] = p"
| "join_colon (p # q # ps) = p @ CHR '':'' # join_colon (q # ps)"

definition padStart :: "nat \<Rightarrow> char \<Rightarrow> string \<Rightarrow> string" where
  "padStart n c s = replicate (n - length s) c @ s"

subsection \<open>Numbers\<close>

text \<open>
  Every number of the script is an integer or NaN, so a number is an
  \<^typ>\<open>int option\<close> with \<open>None\<close> for NaN. The numbers are doubles: every integer of
  magnitude up to \<open>2^53\<close> is one, and from \<open>2^(52+j)\<close> to \<open>2^(53+j)\<close> the doubles are the
  multiples of \<open>2^j\<close>. A sum or a difference is the exact one rounded to the nearest
  double, and to the one with the even significand when two are as near
  (\<open>roundTiesToEven\<close>).
\<close>

type_synonym number = "int option"

function double_spacing :: "int \<Rightarrow> int" where
  "double_spacing a = (if a < 9007199254740992 then 1 else 2 * double_spacing (a div 2))"
  by pat_completeness auto
termination
  by (relation "measure nat") auto

declare double_spacing.simps [simp del]

definition round_ties_even :: "int \<Rightarrow> int \<Rightarrow> int" where
  "round_ties_even q x =
     (let m = x div q; r = x mod q
      in if 2 * r < q \<or> (2 * r = q \<and> even m) then m * q else (m + 1) * q)"

definition to_double :: "int \<Rightarrow> int" where
  "to_double x = round_ties_even (double_spacing \<bar>x\<bar>) x"

definition digit_char :: "nat \<Rightarrow> char" where
  "digit_char n = ''0123456789'' ! n"

function dec_nat :: "nat \<Rightarrow> string" where
  "dec_nat n = (if n < 10 then [digit_char n] else dec_nat (n div 10) @ [digit_char (n mod 10)])"
  by pat_completeness auto
termination
  by (relation "measure id") auto

declare dec_nat.simps [simp del]

text \<open>\<open>String(x)\<close> and the conversion inside a template literal.\<close>

definition ToString :: "number \<Rightarrow> string" where
  "ToString x =
     (case x of
        None \<Rightarrow> ''NaN''
      | Some n \<Rightarrow> if n < 0 then CHR ''-'' # dec_nat (nat (- n)) else dec_nat (nat n))"

text \<open>
  \<open>Number(s)\<close> for a string of decimal digits, the only strings the script converts (the
  groups \<open>(\d{4})\<close> and \<open>(\d{2})\<close> of its patterns).
\<close>

definition digit_value :: "char \<Rightarrow> int" where
  "digit_value c = of_char c - 48"

definition Number :: "string \<Rightarrow> int" where
  "Number ds = foldl (\<lambda>a c. 10 * a + digit_value c) 0 ds"

subsection \<open>Dates\<close>

text \<open>
  A \<open>Date\<close> object holds a time value: milliseconds since 1970-01-01T00:00:00Z, or NaN for
  an invalid date. The functions below are the abstract operations of the language
  standard (ECMA-262, "Time Values and Time Range" onwards) with their names. Their
  arithmetic is that of the integers, which is the arithmetic of doubles below \<open>2^53\<close>:
  the script calls them with fields of at most four digits, and a time value is at most
  \<open>8.64e15\<close> in magnitude.
\<close>

type_synonym jsdate = "int option"

definition msPerDay :: int where "msPerDay = 86400000"
definition msPerHour :: int where "msPerHour = 3600000"
definition msPerMinute :: int where "msPerMinute = 60000"
definition msPerSecond :: int where "msPerSecond = 1000"

definition Day :: "int \<Rightarrow> int" where
  "Day t = t div msPerDay"

definition TimeWithinDay :: "int \<Rightarrow> int" where
  "TimeWithinDay t = t mod msPerDay"

definition DaysInYear :: "int \<Rightarrow> int" where
  "DaysInYear y =
     (if y mod 4 \<noteq> 0 then 365
      else if y mod 100 \<noteq> 0 then 366
      else if y mod 400 \<noteq> 0 then 365
      else 366)"

definition DayFromYear :: "int \<Rightarrow> int" where
  "DayFromYear y =
     365 * (y - 1970) + (y - 1969) div 4 - (y - 1901) div 100 + (y - 1601) div 400"

definition TimeFromYear :: "int \<Rightarrow> int" where
  "TimeFromYear y = msPerDay * DayFromYear y"

lemma div_succ:
  fixes a n :: int
  assumes n: "0 < n"
  shows "(a + 1) div n = a div n + (if (a + 1) mod n = 0 then 1 else 0)"
proof -
  have r: "0 \<le> a mod n" "a mod n < n" using n by simp_all
  show ?thesis
  proof (cases "a mod n + 1 = n")
    case True
    have "a + 1 = n * (a div n) + n" using True mult_div_mod_eq[of n a] by linarith
    hence "a + 1 = n * (a div n + 1) + 0" by (simp add: algebra_simps)
    from int_div_pos_eq[OF this _ n] int_mod_pos_eq[OF this _ n] show ?thesis by simp
  next
    case False
    hence lt: "a mod n + 1 < n" using r by linarith
    have "a + 1 = n * (a div n) + (a mod n + 1)" using mult_div_mod_eq[of n a] by linarith
    from int_div_pos_eq[OF this _ lt] int_mod_pos_eq[OF this _ lt] r show ?thesis by simp
  qed
qed

lemma mod_shift: "((y::int) - n * k) mod n = y mod n"
  by (metis mod_mult_self2 uminus_add_conv_diff add.commute mult_minus_right)

lemma mod_100_imp_4: "(y::int) mod 100 = 0 \<Longrightarrow> y mod 4 = 0"
proof -
  assume "y mod 100 = 0"
  hence "100 dvd y" by (simp add: dvd_eq_mod_eq_0)
  moreover have "(4::int) dvd 100" by simp
  ultimately have "4 dvd y" by (rule_tac dvd_trans)
  thus ?thesis by (simp add: dvd_eq_mod_eq_0)
qed

lemma mod_400_imp_100: "(y::int) mod 400 = 0 \<Longrightarrow> y mod 100 = 0"
proof -
  assume "y mod 400 = 0"
  hence "400 dvd y" by (simp add: dvd_eq_mod_eq_0)
  moreover have "(100::int) dvd 400" by simp
  ultimately have "100 dvd y" by (rule_tac dvd_trans)
  thus ?thesis by (simp add: dvd_eq_mod_eq_0)
qed

text \<open>A year later the day number has grown by the days of the year.\<close>

lemma DayFromYear_step: "DayFromYear (y + 1) = DayFromYear y + DaysInYear y"
proof -
  have a4: "(y + 1 - 1969) div 4 = (y - 1969) div 4 + (if y mod 4 = 0 then 1 else 0)"
    using div_succ[of 4 "y - 1969"] mod_shift[of y 4 492] by (simp add: algebra_simps)
  have a100: "(y + 1 - 1901) div 100 = (y - 1901) div 100 + (if y mod 100 = 0 then 1 else 0)"
    using div_succ[of 100 "y - 1901"] mod_shift[of y 100 19] by (simp add: algebra_simps)
  have a400: "(y + 1 - 1601) div 400 = (y - 1601) div 400 + (if y mod 400 = 0 then 1 else 0)"
    using div_succ[of 400 "y - 1601"] mod_shift[of y 400 4] by (simp add: algebra_simps)
  show ?thesis
    unfolding DayFromYear_def DaysInYear_def a4 a100 a400
    using mod_100_imp_4[of y] mod_400_imp_100[of y] by auto
qed

lemma DaysInYear_bounds: "365 \<le> DaysInYear y \<and> DaysInYear y \<le> 366"
  by (simp add: DaysInYear_def)

text \<open>
  \<open>YearFromTime(t)\<close> is the largest year \<open>y\<close> with \<open>TimeFromYear(y) \<le> t\<close>. It is computed
  from an estimate, first down to a year that starts on or before the day, then up to
  the last such year.
\<close>

function year_down :: "int \<Rightarrow> int \<Rightarrow> int" where
  "year_down d y = (if d < DayFromYear y then year_down d (y - 1) else y)"
  by pat_completeness auto
termination
proof (relation "measure (\<lambda>(d, y). nat (DayFromYear y - d))", goal_cases)
  case 1
  show ?case by simp
next
  case (2 d y)
  have "DayFromYear y = DayFromYear (y - 1) + DaysInYear (y - 1)"
    using DayFromYear_step[of "y - 1"] by simp
  with 2 DaysInYear_bounds[of "y - 1"] show ?case by simp
qed

function year_up :: "int \<Rightarrow> int \<Rightarrow> int" where
  "year_up d y = (if DayFromYear (y + 1) \<le> d then year_up d (y + 1) else y)"
  by pat_completeness auto
termination
proof (relation "measure (\<lambda>(d, y). nat (d + 1 - DayFromYear (y + 1)))", goal_cases)
  case 1
  show ?case by simp
next
  case (2 d y)
  have "DayFromYear (y + 1 + 1) = DayFromYear (y + 1) + DaysInYear (y + 1)"
    by (rule DayFromYear_step)
  with 2 DaysInYear_bounds[of "y + 1"] show ?case by simp
qed

declare year_down.simps [simp del] year_up.simps [simp del]

definition YearFromTime :: "int \<Rightarrow> int" where
  "YearFromTime t = year_up (Day t) (year_down (Day t) (1970 + Day t div 365))"

definition InLeapYear :: "int \<Rightarrow> int" where
  "InLeapYear t = (if DaysInYear (YearFromTime t) = 366 then 1 else 0)"

definition DayWithinYear :: "int \<Rightarrow> int" where
  "DayWithinYear t = Day t - DayFromYear (YearFromTime t)"

definition MonthFromTime :: "int \<Rightarrow> int" where
  "MonthFromTime t =
     (let d = DayWithinYear t; l = InLeapYear t
      in if d < 31 then 0
         else if d < 59 + l then 1
         else if d < 90 + l then 2
         else if d < 120 + l then 3
         else if d < 151 + l then 4
         else if d < 181 + l then 5
         else if d < 212 + l then 6
         else if d < 243 + l then 7
         else if d < 273 + l then 8
         else if d < 304 + l then 9
         else if d < 334 + l then 10
         else 11)"

definition DateFromTime :: "int \<Rightarrow> int" where
  "DateFromTime t =
     (let d = DayWithinYear t; l = InLeapYear t; m = MonthFromTime t
      in if m = 0 then d + 1
         else if m = 1 then d - 30
         else if m = 2 then d - 58 - l
         else if m = 3 then d - 89 - l
         else if m = 4 then d - 119 - l
         else if m = 5 then d - 150 - l
         else if m = 6 then d - 180 - l
         else if m = 7 then d - 211 - l
         else if m = 8 then d - 242 - l
         else if m = 9 then d - 272 - l
         else if m = 10 then d - 303 - l
         else d - 333 - l)"

definition HourFromTime :: "int \<Rightarrow> int" where
  "HourFromTime t = (t div msPerHour) mod 24"

definition MinFromTime :: "int \<Rightarrow> int" where
  "MinFromTime t = (t div msPerMinute) mod 60"

definition SecFromTime :: "int \<Rightarrow> int" where
  "SecFromTime t = (t div msPerSecond) mod 60"

definition MakeTime :: "int \<Rightarrow> int \<Rightarrow> int \<Rightarrow> int \<Rightarrow> int" where
  "MakeTime hour minute sec ms = hour * msPerHour + minute * msPerMinute + sec * msPerSecond + ms"

text \<open>
  \<open>MakeDay\<close> finds the first day of month \<open>mn\<close> of year \<open>ym\<close>, which is the first day of the
  year plus the days of the months before, and counts on from there.
\<close>

definition DaysBeforeMonth :: "int \<Rightarrow> int \<Rightarrow> int" where
  "DaysBeforeMonth ym mn =
     [0, 31, 59, 90, 120, 151, 181, 212, 243, 273, 304, 334] ! nat mn
       + (if 2 \<le> mn \<and> DaysInYear ym = 366 then 1 else 0)"

definition MakeDay :: "int \<Rightarrow> int \<Rightarrow> int \<Rightarrow> int" where
  "MakeDay year month date =
     (let ym = year + month div 12; mn = month mod 12
      in DayFromYear ym + DaysBeforeMonth ym mn + date - 1)"

definition MakeDate :: "int \<Rightarrow> int \<Rightarrow> int" where
  "MakeDate day time = day * msPerDay + time"

definition MakeFullYear :: "int \<Rightarrow> int" where
  "MakeFullYear year = (if 0 \<le> year \<and> year \<le> 99 then 1900 + year else year)"

definition TimeClip :: "int \<Rightarrow> number" where
  "TimeClip time = (if 8640000000000000 < \<bar>time\<bar> then None else Some time)"

text \<open>
  \<open>Date.UTC(year, month, date, hours, minutes, seconds)\<close> for integral arguments (the
  script passes the values of groups of two and of four digits, some plus 8 or minus 1).
\<close>

definition Date_UTC :: "int \<Rightarrow> int \<Rightarrow> int \<Rightarrow> int \<Rightarrow> int \<Rightarrow> int \<Rightarrow> number" where
  "Date_UTC year month date hours minutes seconds =
     TimeClip (MakeDate (MakeDay (MakeFullYear year) month date) (MakeTime hours minutes seconds 0))"

text \<open>\<open>new Date(value)\<close> for a number.\<close>

definition new_Date :: "number \<Rightarrow> jsdate" where
  "new_Date v = (case v of None \<Rightarrow> None | Some t \<Rightarrow> TimeClip t)"

text \<open>
  The getters \<open>getFullYear\<close>, \<open>getMonth\<close>, \<open>getDate\<close>, \<open>getHours\<close>, \<open>getMinutes\<close> and
  \<open>getSeconds\<close> read the local time of the host: \<open>LocalTime(t) = t + LocalTZA(t, true)\<close>,
  where the offset \<open>LocalTZA\<close> of the host's time zone, in milliseconds, is a parameter
  of the model: \<open>\<lambda>t. 0\<close> on a host set to UTC, \<open>\<lambda>t. 19800000\<close> on a host set to IST.
  An invalid date reads as NaN.
\<close>

definition LocalTime :: "(int \<Rightarrow> int) \<Rightarrow> int \<Rightarrow> int" where
  "LocalTime LocalTZA t = t + LocalTZA t"

definition getFullYear :: "(int \<Rightarrow> int) \<Rightarrow> jsdate \<Rightarrow> number" where
  "getFullYear LocalTZA dt = map_option (\<lambda>t. YearFromTime (LocalTime LocalTZA t)) dt"

definition getMonth :: "(int \<Rightarrow> int) \<Rightarrow> jsdate \<Rightarrow> number" where
  "getMonth LocalTZA dt = map_option (\<lambda>t. MonthFromTime (LocalTime LocalTZA t)) dt"

definition getDate :: "(int \<Rightarrow> int) \<Rightarrow> jsdate \<Rightarrow> number" where
  "getDate LocalTZA dt = map_option (\<lambda>t. DateFromTime (LocalTime LocalTZA t)) dt"

definition getHours :: "(int \<Rightarrow> int) \<Rightarrow> jsdate \<Rightarrow> number" where
  "getHours LocalTZA dt = map_option (\<lambda>t. HourFromTime (LocalTime LocalTZA t)) dt"

definition getMinutes :: "(int \<Rightarrow> int) \<Rightarrow> jsdate \<Rightarrow> number" where
  "getMinutes LocalTZA dt = map_option (\<lambda>t. MinFromTime (LocalTime LocalTZA t)) dt"

definition getSeconds :: "(int \<Rightarrow> int) \<Rightarrow> jsdate \<Rightarrow> number" where
  "getSeconds LocalTZA dt = map_option (\<lambda>t. SecFromTime (LocalTime LocalTZA t)) dt"

text \<open>
  Addition and subtraction of numbers, rounded to a double, and the comparisons, which
  are false on NaN.
\<close>

definition num_add :: "number \<Rightarrow> number \<Rightarrow> number" where
  "num_add a b = (case (a, b) of (Some x, Some y) \<Rightarrow> Some (to_double (x + y)) | _ \<Rightarrow> None)"

definition num_sub :: "number \<Rightarrow> number \<Rightarrow> number" where
  "num_sub a b = (case (a, b) of (Some x, Some y) \<Rightarrow> Some (to_double (x - y)) | _ \<Rightarrow> None)"

definition num_ge :: "number \<Rightarrow> number \<Rightarrow> bool" where
  "num_ge a b = (case (a, b) of (Some x, Some y) \<Rightarrow> x \<ge> y | _ \<Rightarrow> False)"

definition num_lt :: "number \<Rightarrow> number \<Rightarrow> bool" where
  "num_lt a b = (case (a, b) of (Some x, Some y) \<Rightarrow> x < y | _ \<Rightarrow> False)"

definition num_le :: "number \<Rightarrow> number \<Rightarrow> bool" where
  "num_le a b = (case (a, b) of (Some x, Some y) \<Rightarrow> x \<le> y | _ \<Rightarrow> False)"

subsection \<open>The patterns of the script\<close>

text \<open>
  Each regular expression of the script is a backtracking matcher built from the pieces
  of the pattern, in the order the pattern has them. A piece takes the input that is
  left and returns what it captured and the rest, or \<open>None\<close> where it fails.
\<close>

text \<open>\<open>\d{n}\<close>.\<close>

definition re_digits :: "nat \<Rightarrow> string \<Rightarrow> (string \<times> string) option" where
  "re_digits n s =
     (if n \<le> length s \<and> list_all isDigit (take n s) then Some (take n s, drop n s) else None)"

text \<open>A literal text.\<close>

definition re_lit :: "string \<Rightarrow> string \<Rightarrow> string option" where
  "re_lit p s = (if startsWith s p then Some (drop (length p) s) else None)"

text \<open>\<open>(\d{4})\/(\d{2})\/(\d{2}) (\d{2}):(\d{2})\<close>, with its five groups.\<close>

definition re_datetime :: "string \<Rightarrow> (string list \<times> string) option" where
  "re_datetime s0 =
     do {
       (y, s1) \<leftarrow> re_digits 4 s0;
       s2 \<leftarrow> re_lit ''/'' s1;
       (m, s3) \<leftarrow> re_digits 2 s2;
       s4 \<leftarrow> re_lit ''/'' s3;
       (d, s5) \<leftarrow> re_digits 2 s4;
       s6 \<leftarrow> re_lit '' '' s5;
       (hh, s7) \<leftarrow> re_digits 2 s6;
       s8 \<leftarrow> re_lit '':'' s7;
       (mm, s9) \<leftarrow> re_digits 2 s8;
       Some ([y, m, d, hh, mm], s9)
     }"

text \<open>
  The pattern of \<open>parseIntervalLine\<close>,
  \<open>^(.+?):\s*(\d{4})\/(\d{2})\/(\d{2}) (\d{2}):(\d{2}) to (\d{4})\/(\d{2})\/(\d{2}) (\d{2}):(\d{2})$\<close>.
  From the right: the two date-times around \<open>to\<close> and the end of the input; before them
  \<open>\s*\<close>, greedy, which gives white space back one by one while the rest fails; before it
  the colon; before it \<open>(.+?)\<close>, lazy, which starts with one character and takes one
  more, never a line terminator, while the rest fails. \<open>^\<close> lets the match start
  only at the start of the input. The result is the array of \<open>match\<close>: the whole match,
  then the eleven groups.
\<close>

definition re_interval_tail :: "string \<Rightarrow> string list option" where
  "re_interval_tail s0 =
     do {
       (g1, s1) \<leftarrow> re_datetime s0;
       s2 \<leftarrow> re_lit '' to '' s1;
       (g2, s3) \<leftarrow> re_datetime s2;
       if s3 = [] then Some (g1 @ g2) else None
     }"

fun re_ws_tail :: "string \<Rightarrow> string list option" where
  "re_ws_tail [] = re_interval_tail []"
| "re_ws_tail (c # cs) =
     (if isWhiteSpace c
      then (case re_ws_tail cs of Some g \<Rightarrow> Some g | None \<Rightarrow> re_interval_tail (c # cs))
      else re_interval_tail (c # cs))"

fun re_name_lazy :: "string \<Rightarrow> string \<Rightarrow> string list option" where
  "re_name_lazy nm [] = None"
| "re_name_lazy nm (c # cs) =
     (case (if c = CHR '':'' then re_ws_tail cs else None) of
        Some g \<Rightarrow> Some (nm # g)
      | None \<Rightarrow> if isLineTerminator c then None else re_name_lazy (nm @ [c]) cs)"

definition re_interval :: "string \<Rightarrow> string list option" where
  "re_interval s =
     (case s of
        [] \<Rightarrow> None
      | c # cs \<Rightarrow> if isLineTerminator c then None else map_option ((#) s) (re_name_lazy [c] cs))"

text \<open>
  The pattern of \<open>convertBackendTimestampPstToIst\<close>,
  \<open>(\d{4})\/(\d{2})\/(\d{2}) (\d{2}):(\d{2}):(\d{2})\<close>, has no anchor: \<open>match\<close> tries it at
  every position from the left and returns the first match, the matched text first.
\<close>

definition re_datetime_sec :: "string \<Rightarrow> (string list \<times> string) option" where
  "re_datetime_sec s0 =
     do {
       (g, s1) \<leftarrow> re_datetime s0;
       s2 \<leftarrow> re_lit '':'' s1;
       (ss, s3) \<leftarrow> re_digits 2 s2;
       Some (g @ [ss], s3)
     }"

fun re_timestamp :: "string \<Rightarrow> string list option" where
  "re_timestamp [] = None"
| "re_timestamp (c # cs) =
     (case re_datetime_sec (c # cs) of
        Some (g, r) \<Rightarrow> Some (take 19 (c # cs) # g)
      | None \<Rightarrow> re_timestamp cs)"

text \<open>
  The pattern of \<open>extractSection\<close>, \<open>details\s*:$\<close> with the flag \<open>i\<close>, tested at every
  position. Under the flag a character matches a letter of the pattern when both have
  the same upper case; for the ASCII letters of \<open>details\<close> these are the letter and its
  capital.
\<close>

definition toUpperAscii :: "char \<Rightarrow> char" where
  "toUpperAscii c =
     (let n = (of_char c :: nat) in if 97 \<le> n \<and> n \<le> 122 then char_of (n - 32) else c)"

fun re_ws_colon_end :: "string \<Rightarrow> bool" where
  "re_ws_colon_end [] = False"
| "re_ws_colon_end (c # cs) = ((isWhiteSpace c \<and> re_ws_colon_end cs) \<or> (c = CHR '':'' \<and> cs = []))"

definition re_details_at :: "string \<Rightarrow> bool" where
  "re_details_at s \<longleftrightarrow>
     7 \<le> length s \<and> map toUpperAscii (take 7 s) = map toUpperAscii ''details''
       \<and> re_ws_colon_end (drop 7 s)"

fun re_details :: "string \<Rightarrow> bool" where
  "re_details [] = re_details_at []"
| "re_details (c # cs) = (re_details_at (c # cs) \<or> re_details cs)"

section \<open>script.js\<close>

subsection \<open>Constants\<close>

definition MS_PER_MIN :: int where "MS_PER_MIN = 60 * 1000"
definition MS_PER_HOUR :: int where "MS_PER_HOUR = 60 * MS_PER_MIN"
definition PST_TO_UTC_H :: int where "PST_TO_UTC_H = 8"
definition UTC_TO_IST_H :: int where "UTC_TO_IST_H = 5"
definition UTC_TO_IST_M :: int where "UTC_TO_IST_M = 30"

subsection \<open>Utilities\<close>

text \<open>
  \<open>makeIstFromPortland(y, m, d, hh, mm)\<close>. The parameters of the model are the numbers
  that \<open>Number(y)\<close>, ..., \<open>Number(mm)\<close> yield in the function.
\<close>

definition makeIstFromPortland :: "int \<Rightarrow> int \<Rightarrow> int \<Rightarrow> int \<Rightarrow> int \<Rightarrow> jsdate" where
  "makeIstFromPortland y m d hh mm =
     (let utcMs = Date_UTC y (m - 1) d (hh + PST_TO_UTC_H) mm 0;
          istMs = num_add utcMs (Some (UTC_TO_IST_H * MS_PER_HOUR + UTC_TO_IST_M * MS_PER_MIN))
      in new_Date istMs)"

text \<open>\<open>formatDateTime(dt)\<close>, on a host with the time zone offset \<open>LocalTZA\<close>.\<close>

definition formatDateTime :: "(int \<Rightarrow> int) \<Rightarrow> jsdate \<Rightarrow> string" where
  "formatDateTime LocalTZA dt =
     (let y = getFullYear LocalTZA dt;
          m = padStart 2 CHR ''0'' (ToString (num_add (getMonth LocalTZA dt) (Some 1)));
          d = padStart 2 CHR ''0'' (ToString (getDate LocalTZA dt));
          hh = padStart 2 CHR ''0'' (ToString (getHours LocalTZA dt));
          mm = padStart 2 CHR ''0'' (ToString (getMinutes LocalTZA dt))
      in ToString y @ ''/'' @ m @ ''/'' @ d @ '' '' @ hh @ '':'' @ mm)"

text \<open>An interval \<open>{ name, start, end }\<close>; the field \<open>end\<close> is written \<open>end'\<close>.\<close>

record interval =
  name :: string
  start :: jsdate
  end' :: jsdate

text \<open>\<open>parseIntervalLine(line)\<close>; \<open>None\<close> is \<open>null\<close>.\<close>

definition parseIntervalLine :: "string \<Rightarrow> interval option" where
  "parseIntervalLine line =
     (case re_interval (trim line) of
        None \<Rightarrow> None
      | Some m \<Rightarrow>
          Some \<lparr> name = trim (m ! 1),
                 start = makeIstFromPortland (Number (m ! 2)) (Number (m ! 3)) (Number (m ! 4))
                           (Number (m ! 5)) (Number (m ! 6)),
                 end' = makeIstFromPortland (Number (m ! 7)) (Number (m ! 8)) (Number (m ! 9))
                           (Number (m ! 10)) (Number (m ! 11)) \<rparr>)"

text \<open>
  \<open>findCurrentAndNext(intervals, now)\<close>. The loop runs from index \<open>i\<close>; the comparison of
  two dates compares their time values. \<open>intervals[i + 1] || null\<close> is \<open>null\<close> past the
  last index. The field \<open>next\<close> of the result is written \<open>next'\<close>.
\<close>

record current_next =
  current :: "interval option"
  next' :: "interval option"

function findCurrentAndNext_loop :: "interval list \<Rightarrow> jsdate \<Rightarrow> nat \<Rightarrow> current_next" where
  "findCurrentAndNext_loop intervals now i =
     (if i < length intervals
      then (let iv = intervals ! i
            in if num_ge now (start iv) \<and> num_lt now (end' iv)
               then \<lparr> current = Some iv,
                      next' = (if i + 1 < length intervals then Some (intervals ! (i + 1)) else None) \<rparr>
               else findCurrentAndNext_loop intervals now (i + 1))
      else \<lparr> current = None, next' = None \<rparr>)"
  by pat_completeness auto
termination
  by (relation "measure (\<lambda>(intervals, now, i). length intervals - i)") auto

declare findCurrentAndNext_loop.simps [simp del]

definition findCurrentAndNext :: "interval list \<Rightarrow> jsdate \<Rightarrow> current_next" where
  "findCurrentAndNext intervals now = findCurrentAndNext_loop intervals now 0"

text \<open>
  \<open>formatTimeRemaining(end, now)\<close>. The time values of two dates are at most
  \<open>8.64e15\<close> in magnitude, so their difference \<open>ms\<close>, rounded to a double, is an integer
  below \<open>2^54\<close>, and an even one from \<open>2^53\<close> on. The double \<open>ms / 60000\<close> is then within
  \<open>2^-15\<close> of the exact quotient, and within \<open>2^-16\<close> of it for \<open>ms\<close> below \<open>2^53\<close>, which is
  less than the \<open>1/30000\<close> that the exact quotient of an even integer, and the \<open>1/60000\<close>
  that the exact quotient of any integer, keeps below the next integer;
  \<open>totalMinutes / 60\<close> likewise. So \<open>Math.floor\<close> of each quotient is the floor division.
  \<open>%\<close> is exact and takes the sign of the dividend.
\<close>

definition js_rem :: "int \<Rightarrow> int \<Rightarrow> int" where
  "js_rem a b = (if a < 0 then - (\<bar>a\<bar> mod \<bar>b\<bar>) else a mod \<bar>b\<bar>)"

definition formatTimeRemaining :: "jsdate \<Rightarrow> jsdate \<Rightarrow> string" where
  "formatTimeRemaining end0 now =
     (let ms = num_sub end0 now
      in if num_le ms (Some 0) then ''Ended just now''
         else
           (let totalMinutes = map_option (\<lambda>x. x div 60000) ms;
                hours = map_option (\<lambda>x. x div 60) totalMinutes;
                minutes = map_option (\<lambda>x. js_rem x 60) totalMinutes
            in if num_le hours (Some 0) \<and> num_le minutes (Some 0) then ''Ending now''
               else if hours = Some 0 then ToString minutes @ '' minutes remaining''
               else if minutes = Some 0 then ToString hours @ '' hours remaining''
               else ToString hours @ '' hours '' @ ToString minutes @ '' minutes remaining''))"

subsection \<open>Parsing helpers\<close>

text \<open>\<open>lines.findIndex(p)\<close>; \<open>None\<close> is \<open>-1\<close>.\<close>

fun findIndex :: "('a \<Rightarrow> bool) \<Rightarrow> 'a list \<Rightarrow> nat option" where
  "findIndex p [] = None"
| "findIndex p (x # xs) = (if p x then Some 0 else map_option Suc (findIndex p xs))"

text \<open>\<open>extractSection(lines, startLabel)\<close>; the loop runs from index \<open>i\<close> with \<open>out\<close>.\<close>

function extractSection_loop :: "string list \<Rightarrow> string \<Rightarrow> nat \<Rightarrow> string list \<Rightarrow> string list" where
  "extractSection_loop lines startLabel i out =
     (if i < length lines
      then (let line = lines ! i; trimmed = trim line
            in if re_details trimmed \<and> \<not> startsWith trimmed startLabel
               then out
               else extractSection_loop lines startLabel (i + 1) (out @ [line]))
      else out)"
  by pat_completeness auto
termination
  by (relation "measure (\<lambda>(lines, startLabel, i, out). length lines - i)") auto

declare extractSection_loop.simps [simp del]

definition extractSection :: "string list \<Rightarrow> string \<Rightarrow> string list" where
  "extractSection lines startLabel =
     (case findIndex (\<lambda>l. startsWith (trim l) startLabel) lines of
        None \<Rightarrow> []
      | Some startIdx \<Rightarrow> extractSection_loop lines startLabel (startIdx + 1) [])"

text \<open>
  \<open>getHeaderValue(lines, label)\<close>. \<open>!line\<close> holds when nothing is found and when the line
  found is the empty string.
\<close>

definition getHeaderValue :: "string list \<Rightarrow> string \<Rightarrow> string option" where
  "getHeaderValue lines label =
     (let lowerLabel = toLowerCase label
      in case find (\<lambda>l. startsWith (toLowerCase (trim l)) lowerLabel) lines of
           None \<Rightarrow> None
         | Some line \<Rightarrow>
             if line = [] then None
             else (let parts = split_colon line
                   in if length parts < 2 then None else Some (trim (parts ! 1))))"

text \<open>\<open>getBackendTimestamp(lines)\<close>.\<close>

definition getBackendTimestamp :: "string list \<Rightarrow> string option" where
  "getBackendTimestamp lines =
     (case find (\<lambda>l. startsWith (toLowerCase (trim l)) ''date and time created'') lines of
        None \<Rightarrow> None
      | Some line \<Rightarrow>
          if line = [] then None
          else (let parts = split_colon line
                in if length parts < 2 then None else Some (trim (join_colon (drop 1 parts)))))"

text \<open>\<open>convertBackendTimestampPstToIst(rawTs)\<close>, on a host with the offset \<open>LocalTZA\<close>.\<close>

definition convertBackendTimestampPstToIst :: "(int \<Rightarrow> int) \<Rightarrow> string \<Rightarrow> string" where
  "convertBackendTimestampPstToIst LocalTZA rawTs =
     (case re_timestamp rawTs of
        None \<Rightarrow> rawTs
      | Some m \<Rightarrow>
          (let y = Number (m ! 1); mo = Number (m ! 2); d = Number (m ! 3);
               hh = Number (m ! 4); mm = Number (m ! 5); ss = Number (m ! 6);
               utcMs = Date_UTC y (mo - 1) d (hh + PST_TO_UTC_H) mm ss;
               istMs = num_add utcMs (Some (UTC_TO_IST_H * MS_PER_HOUR + UTC_TO_IST_M * MS_PER_MIN));
               dt = new_Date istMs;
               yy = getFullYear LocalTZA dt;
               m2 = padStart 2 CHR ''0'' (ToString (num_add (getMonth LocalTZA dt) (Some 1)));
               d2 = padStart 2 CHR ''0'' (ToString (getDate LocalTZA dt));
               hh2 = padStart 2 CHR ''0'' (ToString (getHours LocalTZA dt));
               mm2 = padStart 2 CHR ''0'' (ToString (getMinutes LocalTZA dt));
               ss2 = padStart 2 CHR ''0'' (ToString (getSeconds LocalTZA dt))
           in ToString yy @ ''/'' @ m2 @ ''/'' @ d2 @ '' '' @ hh2 @ '':'' @ mm2 @ '':'' @ ss2))"

section \<open>The notions of the claims\<close>

subsection \<open>Intervals that contain an instant\<close>

text \<open>An interval contains \<open>now\<close> when \<open>now >= start\<close> and \<open>now < end\<close>.\<close>

definition contains_now :: "interval \<Rightarrow> jsdate \<Rightarrow> bool" where
  "contains_now iv now \<longleftrightarrow> num_ge now (start iv) \<and> num_lt now (end' iv)"

subsection \<open>The texts of dates and times\<close>

text \<open>
  The forms that the input file writes: a text matches a mask when it has the length of
  the mask, a digit wherever the mask has \<open>d\<close>, and the character of the mask elsewhere.
  \<open>YYYY/MM/DD HH:MM\<close> is the mask \<open>dddd/dd/dd dd:dd\<close>, and \<open>YYYY/MM/DD HH:MM:SS\<close> the
  mask \<open>dddd/dd/dd dd:dd:dd\<close>.
\<close>

definition mask_char :: "char \<Rightarrow> char \<Rightarrow> bool" where
  "mask_char m c \<longleftrightarrow> (if m = CHR ''d'' then isDigit c else c = m)"

definition matches_mask :: "string \<Rightarrow> string \<Rightarrow> bool" where
  "matches_mask pat t \<longleftrightarrow> list_all2 mask_char pat t"

definition datetime_text :: "string \<Rightarrow> bool" where
  "datetime_text t \<longleftrightarrow> matches_mask ''dddd/dd/dd dd:dd'' t"

definition datetime_groups :: "string \<Rightarrow> string list" where
  "datetime_groups t =
     [take 4 t, take 2 (drop 5 t), take 2 (drop 8 t), take 2 (drop 11 t), take 2 (drop 14 t)]"

definition timestamp_text :: "string \<Rightarrow> bool" where
  "timestamp_text t \<longleftrightarrow> matches_mask ''dddd/dd/dd dd:dd:dd'' t"

definition timestamp_groups :: "string \<Rightarrow> string list" where
  "timestamp_groups t = datetime_groups t @ [take 2 (drop 17 t)]"

text \<open>
  A timestamp occurs in a string when some part of the string is one; it stands at
  index \<open>i\<close> when the 19 characters from \<open>i\<close> on are one.
\<close>

definition timestamp_occurs :: "string \<Rightarrow> bool" where
  "timestamp_occurs s \<longleftrightarrow> (\<exists>pre ts post. s = pre @ ts @ post \<and> timestamp_text ts)"

definition timestamp_at :: "string \<Rightarrow> nat \<Rightarrow> bool" where
  "timestamp_at s i \<longleftrightarrow> timestamp_text (take 19 (drop i s))"

text \<open>
  The converted timestamp. The six fields of a timestamp are a civil time of the source
  zone, 8 hours behind UTC, so 8 hours more make the instant in UTC; 5 hours and 30
  minutes more make the instant whose UTC reading is the civil time of the target zone.
  The text written is the reading of that instant on the host, where the script reads
  it: the year in decimal, and the month, the day, the hour, the minute and the second
  with two digits each.
\<close>

definition two_digits :: "int \<Rightarrow> string" where
  "two_digits n = [digit_char (nat (n div 10)), digit_char (nat (n mod 10))]"

definition converted_timestamp :: "(int \<Rightarrow> int) \<Rightarrow> string \<Rightarrow> string" where
  "converted_timestamp LocalTZA ts =
     (let year = Number (take 4 ts); month = Number (take 2 (drop 5 ts));
          day = Number (take 2 (drop 8 ts)); hour = Number (take 2 (drop 11 ts));
          minute = Number (take 2 (drop 14 ts)); second = Number (take 2 (drop 17 ts));
          utc = MakeDate (MakeDay (MakeFullYear year) (month - 1) day)
                  (MakeTime hour minute second 0) + 8 * msPerHour;
          ist = utc + 5 * msPerHour + 30 * msPerMinute;
          host = LocalTime LocalTZA ist
      in dec_nat (nat (YearFromTime host)) @ ''/'' @ two_digits (MonthFromTime host + 1)
         @ ''/'' @ two_digits (DateFromTime host) @ '' '' @ two_digits (HourFromTime host)
         @ '':'' @ two_digits (MinFromTime host) @ '':'' @ two_digits (SecFromTime host))"

subsection \<open>Interval lines\<close>

text \<open>
  The interval part of a line, \<open>YYYY/MM/DD HH:MM to YYYY/MM/DD HH:MM\<close>, and its ten
  groups; and the grammar of an interval line: a name, which is any text that is not
  empty and has no line terminator, a colon, white space (none too, as \<open>\s*\<close> in the
  pattern), and the interval part.
\<close>

definition interval_text :: "string \<Rightarrow> bool" where
  "interval_text t \<longleftrightarrow> matches_mask ''dddd/dd/dd dd:dd to dddd/dd/dd dd:dd'' t"

definition interval_groups :: "string \<Rightarrow> string list" where
  "interval_groups t = datetime_groups (take 16 t) @ datetime_groups (drop 20 t)"


subsection \<open>Section ends\<close>

text \<open>
  A line ends a section when its trimmed form ends in \<open>details\<close>, in any case of the
  letters, then white space (none too) and a colon, and does not start with the label.
\<close>

definition details_word :: "string \<Rightarrow> bool" where
  "details_word d \<longleftrightarrow> map toUpperAscii d = map toUpperAscii ''details''"

definition ends_in_details :: "string \<Rightarrow> bool" where
  "ends_in_details s \<longleftrightarrow>
     (\<exists>p d ws. s = p @ d @ ws @ '':'' \<and> details_word d
        \<and> list_all isWhiteSpace ws)"

definition section_end :: "string \<Rightarrow> string \<Rightarrow> bool" where
  "section_end startLabel l \<longleftrightarrow>
     ends_in_details (trim l) \<and> \<not> startsWith (trim l) startLabel"

section \<open>Properties\<close>

subsection \<open>Evaluating dates\<close>

text \<open>An integer below \<open>2^53\<close> in magnitude is a double, and rounding keeps it.\<close>

lemma to_double_exact: "\<bar>x\<bar> < 9007199254740992 \<Longrightarrow> to_double x = x"
  by (simp add: to_double_def round_ties_even_def double_spacing.simps[of "\<bar>x\<bar>"])

lemma double_spacing_pos: "0 < double_spacing a"
proof (induction a rule: double_spacing.induct)
  case (1 a)
  then show ?case by (subst double_spacing.simps) simp
qed

lemma to_double_nonpos:
  assumes "x \<le> 0"
  shows "to_double x \<le> 0"
proof -
  define q where "q = double_spacing \<bar>x\<bar>"
  have q: "0 < q" unfolding q_def by (rule double_spacing_pos)
  have r: "0 \<le> x mod q" "x mod q < q" using q by simp_all
  have x: "x = x div q * q + x mod q" by simp
  have low: "x div q * q \<le> 0"
  proof -
    have "x div q * q = x - x mod q" using x by linarith
    with r assms show ?thesis by linarith
  qed
  have up: "(x div q + 1) * q \<le> 0" if "q \<le> 2 * (x mod q)"
  proof -
    have "0 < x mod q" using that q by linarith
    hence "x div q * q < 0" using x assms by linarith
    hence "x div q < 0" using q by (simp add: mult_less_0_iff)
    hence "x div q + 1 \<le> 0" by simp
    thus ?thesis using q by (simp add: mult_le_0_iff)
  qed
  show ?thesis
    unfolding to_double_def round_ties_even_def q_def[symmetric] Let_def
    using low up by auto
qed

text \<open>
  Above \<open>2^53\<close> a difference is rounded: \<open>17279999999999999\<close> is no double, and the
  difference of the last and the first but one time value of a date is
  \<open>17280000000000000\<close>.
\<close>

lemma num_sub_rounds:
  "num_sub (Some 8640000000000000) (Some (- 8639999999999999)) = Some 17280000000000000"
  by (simp add: num_sub_def to_double_def round_ties_even_def double_spacing.simps)

lemmas date_defs =
  Date_UTC_def MakeFullYear_def MakeDay_def MakeDate_def MakeTime_def TimeClip_def
  DaysBeforeMonth_def DayFromYear_def DaysInYear_def
  msPerDay_def msPerHour_def msPerMinute_def msPerSecond_def
  new_Date_def num_add_def to_double_exact
  MS_PER_MIN_def MS_PER_HOUR_def PST_TO_UTC_H_def UTC_TO_IST_H_def UTC_TO_IST_M_def

lemmas getter_defs =
  getFullYear_def getMonth_def getDate_def getHours_def getMinutes_def getSeconds_def
  LocalTime_def HourFromTime_def MinFromTime_def SecFromTime_def

lemmas year_defs = YearFromTime_def Day_def year_up.simps year_down.simps

lemmas month_defs = MonthFromTime_def DateFromTime_def DayWithinYear_def InLeapYear_def Day_def

lemmas string_defs = ToString_def padStart_def dec_nat.simps digit_char_def

subsection \<open>The conversion and its formatting\<close>

lemma makeIstFromPortland_example:
  "makeIstFromPortland 2025 12 4 23 50 = Some 1764940800000"
  by (simp add: makeIstFromPortland_def date_defs)

lemma year_ist_example: "YearFromTime 1764960600000 = 2025"
  by (simp add: year_defs date_defs)

lemma year_utc_example: "YearFromTime 1764940800000 = 2025"
  by (simp add: year_defs date_defs)

lemma formatDateTime_ist_example:
  "formatDateTime (\<lambda>t. 19800000) (Some 1764940800000) = ''2025/12/05 18:50''"
  by (simp add: formatDateTime_def getter_defs month_defs year_ist_example date_defs string_defs)

lemma formatDateTime_utc_example:
  "formatDateTime (\<lambda>t. 0) (Some 1764940800000) = ''2025/12/05 13:20''"
  by (simp add: formatDateTime_def getter_defs month_defs year_utc_example date_defs string_defs)

text \<open>
  Claim C1: for every valid source civil time, \<open>formatDateTime (makeIstFromPortland T)\<close> is
  \<open>T\<close> plus 13 hours 30 minutes; source 2025/12/04 23:50 formats as 2025/12/05 13:20.
  \<open>makeIstFromPortland\<close> already adds the 13 hours 30 minutes to the time value, and
  \<open>formatDateTime\<close> reads the local time of the host, which adds the host's own offset.
  On a host set to IST, the host the comments of the script name, source 2025/12/04
  23:50 formats as 2025/12/05 18:50, which is 19 hours later; the claimed 2025/12/05 13:20
  comes out on a host set to UTC.
\<close>

theorem formatDateTime_makeIstFromPortland_host_offset:
  "formatDateTime (\<lambda>t. 19800000) (makeIstFromPortland 2025 12 4 23 50) = ''2025/12/05 18:50''
   \<and> formatDateTime (\<lambda>t. 0) (makeIstFromPortland 2025 12 4 23 50) = ''2025/12/05 13:20''"
  by (simp only: makeIstFromPortland_example formatDateTime_ist_example
      formatDateTime_utc_example simp_thms)

subsection \<open>The current and the next interval\<close>

lemma loop_found:
  assumes "i \<le> k" "k < length ivs" "contains_now (ivs ! k) now"
    and "\<And>j. i \<le> j \<Longrightarrow> j < k \<Longrightarrow> \<not> contains_now (ivs ! j) now"
  shows "findCurrentAndNext_loop ivs now i =
           \<lparr> current = Some (ivs ! k),
             next' = (if Suc k < length ivs then Some (ivs ! Suc k) else None) \<rparr>"
  using assms
proof (induction "k - i" arbitrary: i)
  case 0
  then have "i = k" by simp
  with 0 show ?case
    by (subst findCurrentAndNext_loop.simps) (auto simp add: contains_now_def Let_def)
next
  case (Suc n)
  then have lt: "i < k" and n: "n = k - Suc i" by simp_all
  have no: "\<not> contains_now (ivs ! i) now" using Suc.prems(4)[of i] lt by simp
  have "findCurrentAndNext_loop ivs now (Suc i) =
           \<lparr> current = Some (ivs ! k),
             next' = (if Suc k < length ivs then Some (ivs ! Suc k) else None) \<rparr>"
    using Suc.hyps(1)[OF n] Suc.prems lt by simp
  with no lt Suc.prems(2) show ?case
    by (subst findCurrentAndNext_loop.simps) (auto simp add: contains_now_def Let_def)
qed

lemma loop_none:
  assumes "\<And>j. i \<le> j \<Longrightarrow> j < length ivs \<Longrightarrow> \<not> contains_now (ivs ! j) now"
  shows "findCurrentAndNext_loop ivs now i = \<lparr> current = None, next' = None \<rparr>"
  using assms
proof (induction "length ivs - i" arbitrary: i)
  case 0
  then show ?case by (subst findCurrentAndNext_loop.simps) simp
next
  case (Suc n)
  then have lt: "i < length ivs" and n: "n = length ivs - Suc i" by simp_all
  have no: "\<not> contains_now (ivs ! i) now" using Suc.prems[of i] lt by simp
  have "findCurrentAndNext_loop ivs now (Suc i) = \<lparr> current = None, next' = None \<rparr>"
    using Suc.hyps(1)[OF n] Suc.prems by simp
  with no lt show ?case
    by (subst findCurrentAndNext_loop.simps) (auto simp add: contains_now_def Let_def)
qed

lemma loop_current_contains:
  "current (findCurrentAndNext_loop ivs now i) = Some iv \<Longrightarrow> contains_now iv now"
proof (induction ivs now i rule: findCurrentAndNext_loop.induct)
  case (1 intervals now i)
  show ?case
  proof (cases "i < length intervals")
    case False
    with 1(2) show ?thesis by (subst (asm) findCurrentAndNext_loop.simps) simp
  next
    case True
    show ?thesis
    proof (cases "num_ge now (start (intervals ! i)) \<and> num_lt now (end' (intervals ! i))")
      case c: True
      with True 1(2) have "iv = intervals ! i"
        by (subst (asm) findCurrentAndNext_loop.simps) simp
      with c show ?thesis by (auto simp add: contains_now_def Let_def)
    next
      case c: False
      with True 1(2) have "current (findCurrentAndNext_loop intervals now (i + 1)) = Some iv"
        by (subst (asm) findCurrentAndNext_loop.simps) (simp add: Let_def)
      with 1(1)[OF True refl c] show ?thesis by simp
    qed
  qed
qed

text \<open>
  Claim C2, as amended: \<open>findCurrentAndNext\<close> takes starts inclusive and ends exclusive.
  If \<open>now\<close> equals the start of an interval, is before its end, and no interval earlier
  in the list contains \<open>now\<close>, that interval is returned as current; an interval whose end
  equals \<open>now\<close> is never returned as current.
\<close>

theorem findCurrentAndNext_boundaries:
  "(\<forall>k t. k < length ivs \<and> start (ivs ! k) = Some t \<and> num_lt (Some t) (end' (ivs ! k))
           \<and> (\<forall>j<k. \<not> contains_now (ivs ! j) (Some t)) \<longrightarrow>
       current (findCurrentAndNext ivs (Some t)) = Some (ivs ! k))
   \<and> (\<forall>(iv::interval) now. end' iv = now \<longrightarrow> current (findCurrentAndNext ivs now) \<noteq> Some iv)"
proof (intro conjI allI impI)
  fix k t
  assume h: "k < length ivs \<and> start (ivs ! k) = Some t \<and> num_lt (Some t) (end' (ivs ! k))
           \<and> (\<forall>j<k. \<not> contains_now (ivs ! j) (Some t))"
  then have "contains_now (ivs ! k) (Some t)"
    by (simp add: contains_now_def num_ge_def)
  with h have "findCurrentAndNext_loop ivs (Some t) 0 =
           \<lparr> current = Some (ivs ! k),
             next' = (if Suc k < length ivs then Some (ivs ! Suc k) else None) \<rparr>"
    by (intro loop_found) simp_all
  then show "current (findCurrentAndNext ivs (Some t)) = Some (ivs ! k)"
    by (simp add: findCurrentAndNext_def)
next
  fix iv :: interval and now
  assume e: "end' iv = now"
  show "current (findCurrentAndNext ivs now) \<noteq> Some iv"
  proof
    assume "current (findCurrentAndNext ivs now) = Some iv"
    then have "contains_now iv now"
      unfolding findCurrentAndNext_def by (rule loop_current_contains)
    with e show False
      by (auto simp add: contains_now_def num_lt_def split: option.splits)
  qed
qed

theorem findCurrentAndNext_boundaries_witness:
  "current (findCurrentAndNext
      [\<lparr>name = ''Prathama'', start = Some 0, end' = Some 10\<rparr>,
       \<lparr>name = ''Dwitiya'', start = Some 10, end' = Some 20\<rparr>] (Some 10))
     = Some \<lparr>name = ''Dwitiya'', start = Some 10, end' = Some 20\<rparr>
   \<and> current (findCurrentAndNext
      [\<lparr>name = ''Prathama'', start = Some 0, end' = Some 10\<rparr>,
       \<lparr>name = ''Dwitiya'', start = Some 10, end' = Some 20\<rparr>] (Some 10))
     \<noteq> Some \<lparr>name = ''Prathama'', start = Some 0, end' = Some 10\<rparr>"
proof -
  let ?A = "\<lparr>name = ''Prathama'', start = Some 0, end' = Some 10\<rparr>"
  let ?B = "\<lparr>name = ''Dwitiya'', start = Some 10, end' = Some 20\<rparr>"
  note T = findCurrentAndNext_boundaries[of "[?A, ?B]"]
  have h: "1 < length [?A, ?B] \<and> start ([?A, ?B] ! 1) = Some 10
           \<and> num_lt (Some 10) (end' ([?A, ?B] ! 1))
           \<and> (\<forall>j<1. \<not> contains_now ([?A, ?B] ! j) (Some 10))"
    by (simp add: num_lt_def contains_now_def num_ge_def)
  from T h have 1: "current (findCurrentAndNext [?A, ?B] (Some 10)) = Some ([?A, ?B] ! 1)"
    by blast
  have e: "end' ?A = Some 10" by simp
  from T e have 2: "current (findCurrentAndNext [?A, ?B] (Some 10)) \<noteq> Some ?A"
    by blast
  from 1 2 show ?thesis by simp
qed

text \<open>
  The claim as stated, for every interval list, fails where intervals overlap: \<open>now = 5\<close>
  is the start of the second interval and before its end, and the first interval, which
  contains 5 too, is returned.
\<close>

theorem findCurrentAndNext_start_counterexample:
  "start \<lparr>name = ''Dwitiya'', start = Some 5, end' = Some 20\<rparr> = Some 5
   \<and> num_lt (Some 5) (end' \<lparr>name = ''Dwitiya'', start = Some 5, end' = Some 20\<rparr>)
   \<and> current (findCurrentAndNext
        [\<lparr>name = ''Prathama'', start = Some 0, end' = Some 10\<rparr>,
         \<lparr>name = ''Dwitiya'', start = Some 5, end' = Some 20\<rparr>] (Some 5))
       = Some \<lparr>name = ''Prathama'', start = Some 0, end' = Some 10\<rparr>
   \<and> current (findCurrentAndNext
        [\<lparr>name = ''Prathama'', start = Some 0, end' = Some 10\<rparr>,
         \<lparr>name = ''Dwitiya'', start = Some 5, end' = Some 20\<rparr>] (Some 5))
       \<noteq> Some \<lparr>name = ''Dwitiya'', start = Some 5, end' = Some 20\<rparr>"
  by (simp add: findCurrentAndNext_def findCurrentAndNext_loop.simps num_ge_def num_lt_def)

text \<open>
  Claim C3: \<open>current\<close> is the first interval in index order that contains \<open>now\<close>, \<open>next\<close>
  is its successor in index order, \<open>null\<close> when \<open>current\<close> is the last entry, and both
  are \<open>null\<close> when no interval contains \<open>now\<close>.
\<close>

theorem findCurrentAndNext_first_containing: 
  "(\<forall>k. k < length ivs \<and> contains_now (ivs ! k) now \<and> (\<forall>j<k. \<not> contains_now (ivs ! j) now) \<longrightarrow>
       findCurrentAndNext ivs now =
         \<lparr> current = Some (ivs ! k),
           next' = (if Suc k < length ivs then Some (ivs ! Suc k) else None) \<rparr>)
   \<and> ((\<forall>k<length ivs. \<not> contains_now (ivs ! k) now) \<longrightarrow>
       findCurrentAndNext ivs now = \<lparr> current = None, next' = None \<rparr>)"
  unfolding findCurrentAndNext_def
  using loop_found[of 0 _ ivs now] loop_none[of 0 ivs now] by blast

theorem findCurrentAndNext_first_containing_witness:
  "findCurrentAndNext
      [\<lparr>name = ''Prathama'', start = Some 0, end' = Some 10\<rparr>,
       \<lparr>name = ''Dwitiya'', start = Some 10, end' = Some 20\<rparr>] (Some 3)
     = \<lparr>current = Some \<lparr>name = ''Prathama'', start = Some 0, end' = Some 10\<rparr>,
        next' = Some \<lparr>name = ''Dwitiya'', start = Some 10, end' = Some 20\<rparr>\<rparr>
   \<and> findCurrentAndNext
      [\<lparr>name = ''Prathama'', start = Some 0, end' = Some 10\<rparr>,
       \<lparr>name = ''Dwitiya'', start = Some 10, end' = Some 20\<rparr>] (Some 12)
     = \<lparr>current = Some \<lparr>name = ''Dwitiya'', start = Some 10, end' = Some 20\<rparr>,
        next' = None\<rparr>
   \<and> findCurrentAndNext
      [\<lparr>name = ''Prathama'', start = Some 0, end' = Some 10\<rparr>,
       \<lparr>name = ''Dwitiya'', start = Some 10, end' = Some 20\<rparr>] (Some 20)
     = \<lparr>current = None, next' = None\<rparr>"
proof -
  let ?A = "\<lparr>name = ''Prathama'', start = Some 0, end' = Some 10\<rparr>"
  let ?B = "\<lparr>name = ''Dwitiya'', start = Some 10, end' = Some 20\<rparr>"
  have h1: "0 < length [?A, ?B] \<and> contains_now ([?A, ?B] ! 0) (Some 3)
            \<and> (\<forall>j<0. \<not> contains_now ([?A, ?B] ! j) (Some 3))"
    by (simp add: contains_now_def num_ge_def num_lt_def)
  have h2: "1 < length [?A, ?B] \<and> contains_now ([?A, ?B] ! 1) (Some 12)
            \<and> (\<forall>j<1. \<not> contains_now ([?A, ?B] ! j) (Some 12))"
    by (simp add: contains_now_def num_ge_def num_lt_def)
  have h3: "\<forall>k<length [?A, ?B]. \<not> contains_now ([?A, ?B] ! k) (Some 20)"
    by (simp add: contains_now_def num_ge_def num_lt_def less_Suc_eq)
  from findCurrentAndNext_first_containing[of "[?A, ?B]" "Some 3"] h1
  have 1: "findCurrentAndNext [?A, ?B] (Some 3) =
             \<lparr>current = Some ([?A, ?B] ! 0),
               next' = (if Suc 0 < length [?A, ?B] then Some ([?A, ?B] ! Suc 0) else None)\<rparr>"
    by blast
  from findCurrentAndNext_first_containing[of "[?A, ?B]" "Some 12"] h2
  have 2: "findCurrentAndNext [?A, ?B] (Some 12) =
             \<lparr>current = Some ([?A, ?B] ! 1),
               next' = (if Suc 1 < length [?A, ?B] then Some ([?A, ?B] ! Suc 1) else None)\<rparr>"
    by blast
  from findCurrentAndNext_first_containing[of "[?A, ?B]" "Some 20"] h3
  have 3: "findCurrentAndNext [?A, ?B] (Some 20) = \<lparr>current = None, next' = None\<rparr>"
    by blast
  from 1 2 3 show ?thesis by simp
qed

subsection \<open>The remaining time\<close>

lemma formatTimeRemaining_90_minutes:
  "formatTimeRemaining (Some (n + 5400000)) (Some n) = ''1 hours 30 minutes remaining''"
  by (simp add: formatTimeRemaining_def num_sub_def to_double_exact num_le_def js_rem_def
      string_defs)

lemma formatTimeRemaining_ended:
  "e \<le> n \<Longrightarrow> formatTimeRemaining (Some e) (Some n) = ''Ended just now''"
  using to_double_nonpos[of "e - n"]
  by (simp add: formatTimeRemaining_def num_sub_def num_le_def)

lemma formatTimeRemaining_ending:
  "n < e \<Longrightarrow> e < n + 60000 \<Longrightarrow> formatTimeRemaining (Some e) (Some n) = ''Ending now''"
  using to_double_exact[of "e - n"]
  by (simp add: formatTimeRemaining_def num_sub_def num_le_def js_rem_def)

lemma formatTimeRemaining_phrases:
  assumes "n + 60000 \<le> e" and bound: "e - n < 9007199254740992"
  shows "formatTimeRemaining (Some e) (Some n) =
       (let totalMinutes = (e - n) div 60000;
            hours = totalMinutes div 60;
            minutes = totalMinutes mod 60
        in (if hours = 0 then [] else ToString (Some hours) @ '' hours'')
           @ (if hours \<noteq> 0 \<and> minutes \<noteq> 0 then '' '' else [])
           @ (if minutes = 0 then [] else ToString (Some minutes) @ '' minutes'')
           @ '' remaining'')"
proof -
  define tm where "tm = (e - n) div 60000"
  have tm1: "1 \<le> tm"
    unfolding tm_def using assms by (simp add: pos_imp_zdiv_pos_iff)
  have h0: "0 \<le> tm div 60"
    using tm1 by (simp add: pos_imp_zdiv_nonneg_iff)
  have m0: "0 \<le> tm mod 60" by simp
  have nz: "tm div 60 = 0 \<Longrightarrow> tm mod 60 \<noteq> 0"
  proof
    assume "tm div 60 = 0" "tm mod 60 = 0"
    with mult_div_mod_eq[of 60 tm] have "tm = 0" by simp
    with tm1 show False by simp
  qed
  have pos: "\<not> e - n \<le> 0" using assms by simp
  have exact: "to_double (e - n) = e - n"
    using assms by (intro to_double_exact) simp
  show ?thesis
    using tm1 h0 m0 nz pos
    by (auto simp add: formatTimeRemaining_def num_sub_def exact num_le_def js_rem_def Let_def
        tm_def[symmetric])
qed

text \<open>
  Where the difference is rounded, the phrases are those of the rounded difference: one
  millisecond less than 4800000000 hours is 4800000000 hours.
\<close>

lemma formatTimeRemaining_rounded:
  "formatTimeRemaining (Some 8640000000000000) (Some (- 8639999999999999))
     = ''4800000000 hours remaining''"
  unfolding formatTimeRemaining_def num_sub_rounds
  by (simp add: num_le_def js_rem_def string_defs)

text \<open>
  Claim C8, as amended: with \<open>end\<close> exactly 90 minutes after \<open>now\<close> the result is
  "1 hours 30 minutes remaining"; with \<open>end\<close> after \<open>now\<close> by less than one minute it is
  "Ending now"; with \<open>end\<close> at \<open>now\<close> or before it is "Ended just now"; from one minute on
  and below \<open>2^53\<close> milliseconds, where the difference of the two time values is exact,
  with \<open>totalMinutes\<close> the floor of the remaining milliseconds over 60000, \<open>hours\<close> its
  quotient by 60 and \<open>minutes\<close> its remainder, the result is the hours phrase, left out
  when \<open>hours\<close> is zero, the minutes phrase, left out when \<open>minutes\<close> is zero, and
  "remaining".
\<close>

theorem formatTimeRemaining_cases:
  "formatTimeRemaining (Some (n + 90 * 60000)) (Some n) = ''1 hours 30 minutes remaining''
   \<and> (n < e \<and> e < n + 60000 \<longrightarrow> formatTimeRemaining (Some e) (Some n) = ''Ending now'')
   \<and> (e \<le> n \<longrightarrow> formatTimeRemaining (Some e) (Some n) = ''Ended just now'')
   \<and> (n + 60000 \<le> e \<and> e - n < 9007199254740992 \<longrightarrow>
        formatTimeRemaining (Some e) (Some n) =
          (let totalMinutes = (e - n) div 60000;
               hours = totalMinutes div 60;
               minutes = totalMinutes mod 60
           in (if hours = 0 then [] else ToString (Some hours) @ '' hours'')
              @ (if hours \<noteq> 0 \<and> minutes \<noteq> 0 then '' '' else [])
              @ (if minutes = 0 then [] else ToString (Some minutes) @ '' minutes'')
              @ '' remaining''))"
  using formatTimeRemaining_90_minutes[of n] formatTimeRemaining_ending[of n e]
    formatTimeRemaining_ended[of e n] formatTimeRemaining_phrases[of n e]
  by simp

theorem formatTimeRemaining_cases_witness:
  "formatTimeRemaining (Some 1764940830000) (Some 1764940800000) = ''Ending now''
   \<and> formatTimeRemaining (Some 1764940799999) (Some 1764940800000) = ''Ended just now''
   \<and> formatTimeRemaining (Some 1764948300000) (Some 1764940800000) = ''2 hours 5 minutes remaining''
   \<and> formatTimeRemaining (Some 1764948000000) (Some 1764940800000) = ''2 hours remaining''
   \<and> formatTimeRemaining (Some 1764941400000) (Some 1764940800000) = ''10 minutes remaining''"
proof -
  have 1: "formatTimeRemaining (Some 1764940830000) (Some 1764940800000) = ''Ending now''"
    using formatTimeRemaining_cases[of 1764940800000 1764940830000] by simp
  have 2: "formatTimeRemaining (Some 1764940799999) (Some 1764940800000) = ''Ended just now''"
    using formatTimeRemaining_cases[of 1764940800000 1764940799999] by simp
  have 3: "formatTimeRemaining (Some 1764948300000) (Some 1764940800000)
             = ''2 hours 5 minutes remaining''"
    using formatTimeRemaining_cases[of 1764940800000 1764948300000] by (simp add: string_defs)
  have 4: "formatTimeRemaining (Some 1764948000000) (Some 1764940800000) = ''2 hours remaining''"
    using formatTimeRemaining_cases[of 1764940800000 1764948000000] by (simp add: string_defs)
  have 5: "formatTimeRemaining (Some 1764941400000) (Some 1764940800000) = ''10 minutes remaining''"
    using formatTimeRemaining_cases[of 1764940800000 1764941400000] by (simp add: string_defs)
  from 1 2 3 4 5 show ?thesis by simp
qed

text \<open>
  The claim as stated fails for \<open>end\<close> 0 minutes after \<open>now\<close>, which is \<open>end = now\<close>: the
  difference is 0, the guard \<open>ms <= 0\<close> holds, and the result is "Ended just now".
\<close>

theorem formatTimeRemaining_zero_counterexample:
  "formatTimeRemaining (Some (1764940800000 + 0 * 60000)) (Some 1764940800000) = ''Ended just now''
   \<and> formatTimeRemaining (Some (1764940800000 + 0 * 60000)) (Some 1764940800000) \<noteq> ''Ending now''"
  by (simp add: formatTimeRemaining_def num_sub_def to_double_exact num_le_def)

subsection \<open>Header values\<close>

text \<open>
  Claim C4: \<open>getHeaderValue\<close> returns everything after the first colon of the matched
  line, trimmed, also when the value contains a colon. The function returns \<open>parts[1]\<close>,
  the piece between the first colon and the second: of the line \<open>Sunrise : 06:45\<close> it
  returns \<open>06\<close>, not \<open>06:45\<close>. \<open>getBackendTimestamp\<close>, which finds its line the same way,
  joins the pieces after the first and returns the whole remainder.
\<close>

theorem getHeaderValue_second_colon:
  "getHeaderValue [''Samvatsaram : Vishwaavasu'', ''Sunrise : 06:45''] ''Sunrise'' = Some ''06''
   \<and> getHeaderValue [''Samvatsaram : Vishwaavasu'', ''Sunrise : 06:45''] ''samvat''
        = Some ''Vishwaavasu''
   \<and> getBackendTimestamp [''Date and time created : 2025/12/01 15:15:42'']
        = Some ''2025/12/01 15:15:42''"
  by code_simp

subsection \<open>The date-time patterns\<close>

lemma matches_mask_length: "matches_mask pat t \<Longrightarrow> length t = length pat"
  by (simp add: matches_mask_def list_all2_lengthD)

lemma re_digits_iff:
  "re_digits n s = Some (d, r) \<longleftrightarrow>
     n \<le> length s \<and> list_all isDigit (take n s) \<and> d = take n s \<and> r = drop n s"
  by (auto simp add: re_digits_def)

lemma re_lit_iff:
  "re_lit p s = Some r \<longleftrightarrow> take (length p) s = p \<and> r = drop (length p) s"
  by (auto simp add: re_lit_def startsWith_def)

lemma re_digits_length: "re_digits n s = Some (d, r) \<Longrightarrow> length s = n + length r"
  by (simp add: re_digits_iff)

lemma re_lit_length:
  assumes "re_lit p s = Some r"
  shows "length s = length p + length r"
proof -
  from assms have t: "take (length p) s = p" and r: "r = drop (length p) s"
    by (simp_all add: re_lit_iff)
  from t have "length (take (length p) s) = length p" by simp
  then have "length p \<le> length s" by simp
  with r show ?thesis by simp
qed

lemma re_datetime_length:
  assumes "re_datetime s = Some (g, r)"
  shows "length s = 16 + length r"
proof -
  from assms obtain y s1 s2 m s3 s4 d s5 s6 hh s7 s8 mm where
    p: "re_digits 4 s = Some (y, s1)" "re_lit ''/'' s1 = Some s2"
       "re_digits 2 s2 = Some (m, s3)" "re_lit ''/'' s3 = Some s4"
       "re_digits 2 s4 = Some (d, s5)" "re_lit '' '' s5 = Some s6"
       "re_digits 2 s6 = Some (hh, s7)" "re_lit '':'' s7 = Some s8"
       "re_digits 2 s8 = Some (mm, r)"
    unfolding re_datetime_def by (clarsimp simp add: bind_eq_Some_conv)
  show ?thesis
    using re_digits_length[OF p(1)] re_lit_length[OF p(2)] re_digits_length[OF p(3)]
      re_lit_length[OF p(4)] re_digits_length[OF p(5)] re_lit_length[OF p(6)]
      re_digits_length[OF p(7)] re_lit_length[OF p(8)] re_digits_length[OF p(9)]
    by simp
qed

lemma list16:
  assumes "16 \<le> length s"
  obtains c0 c1 c2 c3 c4 c5 c6 c7 c8 c9 c10 c11 c12 c13 c14 c15 r
  where "s = c0 # c1 # c2 # c3 # c4 # c5 # c6 # c7 # c8 # c9 # c10 # c11 # c12 # c13 # c14 # c15 # r"
proof -
  from assms obtain c0 r0 where e0: "s = c0 # r0" and l0: "15 \<le> length r0"
    by (cases s) auto
  from l0 obtain c1 r1 where e1: "r0 = c1 # r1" and l1: "14 \<le> length r1"
    by (cases r0) auto
  from l1 obtain c2 r2 where e2: "r1 = c2 # r2" and l2: "13 \<le> length r2"
    by (cases r1) auto
  from l2 obtain c3 r3 where e3: "r2 = c3 # r3" and l3: "12 \<le> length r3"
    by (cases r2) auto
  from l3 obtain c4 r4 where e4: "r3 = c4 # r4" and l4: "11 \<le> length r4"
    by (cases r3) auto
  from l4 obtain c5 r5 where e5: "r4 = c5 # r5" and l5: "10 \<le> length r5"
    by (cases r4) auto
  from l5 obtain c6 r6 where e6: "r5 = c6 # r6" and l6: "9 \<le> length r6"
    by (cases r5) auto
  from l6 obtain c7 r7 where e7: "r6 = c7 # r7" and l7: "8 \<le> length r7"
    by (cases r6) auto
  from l7 obtain c8 r8 where e8: "r7 = c8 # r8" and l8: "7 \<le> length r8"
    by (cases r7) auto
  from l8 obtain c9 r9 where e9: "r8 = c9 # r9" and l9: "6 \<le> length r9"
    by (cases r8) auto
  from l9 obtain c10 r10 where e10: "r9 = c10 # r10" and l10: "5 \<le> length r10"
    by (cases r9) auto
  from l10 obtain c11 r11 where e11: "r10 = c11 # r11" and l11: "4 \<le> length r11"
    by (cases r10) auto
  from l11 obtain c12 r12 where e12: "r11 = c12 # r12" and l12: "3 \<le> length r12"
    by (cases r11) auto
  from l12 obtain c13 r13 where e13: "r12 = c13 # r13" and l13: "2 \<le> length r13"
    by (cases r12) auto
  from l13 obtain c14 r14 where e14: "r13 = c14 # r14" and l14: "1 \<le> length r14"
    by (cases r13) auto
  from l14 obtain c15 r15 where e15: "r14 = c15 # r15" and l15: "0 \<le> length r15"
    by (cases r14) auto
  show ?thesis
    by (rule that[of c0 c1 c2 c3 c4 c5 c6 c7 c8 c9 c10 c11 c12 c13 c14 c15 r15])
      (simp add: e0 e1 e2 e3 e4 e5 e6 e7 e8 e9 e10 e11 e12 e13 e14 e15)
qed

lemma re_datetime_iff:
  "re_datetime s = Some (g, r) \<longleftrightarrow>
     datetime_text (take 16 s) \<and> g = datetime_groups (take 16 s) \<and> r = drop 16 s"
proof (cases "16 \<le> length s")
  case False
  then have "\<not> datetime_text (take 16 s)"
    using matches_mask_length[of "''dddd/dd/dd dd:dd''" "take 16 s"]
    by (auto simp add: datetime_text_def)
  with False show ?thesis using re_datetime_length[of s g r] by auto
next
  case True
  then obtain c0 c1 c2 c3 c4 c5 c6 c7 c8 c9 c10 c11 c12 c13 c14 c15 r'
    where s: "s = c0 # c1 # c2 # c3 # c4 # c5 # c6 # c7 # c8 # c9 # c10 # c11 # c12 # c13 # c14 # c15 # r'"
    by (rule list16)
  show ?thesis
    unfolding s
    apply (simp add: re_datetime_def bind_eq_Some_conv re_digits_iff re_lit_iff
        datetime_text_def matches_mask_def mask_char_def datetime_groups_def)
    apply blast
    done
qed

lemma list19:
  assumes "19 \<le> length s"
  obtains c0 c1 c2 c3 c4 c5 c6 c7 c8 c9 c10 c11 c12 c13 c14 c15 c16 c17 c18 r
  where "s = c0 # c1 # c2 # c3 # c4 # c5 # c6 # c7 # c8 # c9 # c10 # c11 # c12 # c13 # c14 # c15
             # c16 # c17 # c18 # r"
proof -
  from assms have "16 \<le> length s" by simp
  then obtain c0 c1 c2 c3 c4 c5 c6 c7 c8 c9 c10 c11 c12 c13 c14 c15 r15
    where e: "s = c0 # c1 # c2 # c3 # c4 # c5 # c6 # c7 # c8 # c9 # c10 # c11 # c12 # c13 # c14 # c15 # r15"
    by (rule list16)
  from assms e have l15: "3 \<le> length r15" by simp
  from l15 obtain c16 r16 where e16: "r15 = c16 # r16" and l16: "2 \<le> length r16"
    by (cases r15) auto
  from l16 obtain c17 r17 where e17: "r16 = c17 # r17" and l17: "1 \<le> length r17"
    by (cases r16) auto
  from l17 obtain c18 r18 where e18: "r17 = c18 # r18"
    by (cases r17) auto
  show ?thesis
    by (rule that[of c0 c1 c2 c3 c4 c5 c6 c7 c8 c9 c10 c11 c12 c13 c14 c15 c16 c17 c18 r18])
      (simp add: e e16 e17 e18)
qed

lemma re_datetime_sec_length:
  assumes "re_datetime_sec s = Some (g, r)"
  shows "length s = 19 + length r"
proof -
  from assms obtain g1 s1 s2 ss where
    p: "re_datetime s = Some (g1, s1)" "re_lit '':'' s1 = Some s2" "re_digits 2 s2 = Some (ss, r)"
    unfolding re_datetime_sec_def by (clarsimp simp add: bind_eq_Some_conv)
  show ?thesis
    using re_datetime_length[OF p(1)] re_lit_length[OF p(2)] re_digits_length[OF p(3)] by simp
qed

lemma re_datetime_sec_iff:
  "re_datetime_sec s = Some (g, r) \<longleftrightarrow>
     timestamp_text (take 19 s) \<and> g = timestamp_groups (take 19 s) \<and> r = drop 19 s"
proof (cases "19 \<le> length s")
  case False
  then have "\<not> timestamp_text (take 19 s)"
    using matches_mask_length[of "''dddd/dd/dd dd:dd:dd''" "take 19 s"]
    by (auto simp add: timestamp_text_def)
  with False show ?thesis using re_datetime_sec_length[of s g r] by auto
next
  case True
  then obtain c0 c1 c2 c3 c4 c5 c6 c7 c8 c9 c10 c11 c12 c13 c14 c15 c16 c17 c18 r'
    where s: "s = c0 # c1 # c2 # c3 # c4 # c5 # c6 # c7 # c8 # c9 # c10 # c11 # c12 # c13 # c14 # c15
             # c16 # c17 # c18 # r'"
    by (rule list19)
  show ?thesis
    unfolding s
    apply (simp add: re_datetime_sec_def bind_eq_Some_conv re_datetime_iff re_digits_iff re_lit_iff
        timestamp_text_def datetime_text_def matches_mask_def mask_char_def
        datetime_groups_def timestamp_groups_def)
    apply blast
    done
qed

lemma re_datetime_sec_None: "re_datetime_sec s = None \<longleftrightarrow> \<not> timestamp_text (take 19 s)"
proof (cases "re_datetime_sec s")
  case None
  then show ?thesis using re_datetime_sec_iff[of s "timestamp_groups (take 19 s)" "drop 19 s"] by simp
next
  case (Some a)
  then show ?thesis using re_datetime_sec_iff[of s "fst a" "snd a"] by simp
qed

lemma timestamp_text_length: "timestamp_text ts \<Longrightarrow> length ts = 19"
  using matches_mask_length[of "''dddd/dd/dd dd:dd:dd''" ts] by (simp add: timestamp_text_def)

text \<open>The search skips a prefix in which no match starts.\<close>

lemma re_timestamp_skip:
  "(\<And>j. j < length pre \<Longrightarrow> \<not> timestamp_text (take 19 (drop j (pre @ rest)))) \<Longrightarrow>
     re_timestamp (pre @ rest) = re_timestamp rest"
proof (induction pre)
  case Nil
  then show ?case by simp
next
  case (Cons c pre)
  have "\<not> timestamp_text (take 19 (drop 0 ((c # pre) @ rest)))"
    by (rule Cons.prems) simp
  then have n: "re_datetime_sec (c # pre @ rest) = None"
    by (simp add: re_datetime_sec_None)
  have "re_timestamp (pre @ rest) = re_timestamp rest"
  proof (rule Cons.IH)
    fix j assume "j < length pre"
    then have "\<not> timestamp_text (take 19 (drop (Suc j) ((c # pre) @ rest)))"
      by (intro Cons.prems) simp
    then show "\<not> timestamp_text (take 19 (drop j (pre @ rest)))" by simp
  qed
  with n show ?case by simp
qed

lemma re_timestamp_here:
  assumes "timestamp_text ts"
  shows "re_timestamp (ts @ post) = Some (ts # timestamp_groups ts)"
proof -
  have l: "length ts = 19" using assms by (rule timestamp_text_length)
  then obtain c cs where ts: "ts = c # cs" by (cases ts) auto
  have "re_datetime_sec (ts @ post) = Some (timestamp_groups ts, post)"
    using assms l by (simp add: re_datetime_sec_iff)
  then show ?thesis using l unfolding ts by simp
qed

lemma re_timestamp_None_iff: "re_timestamp s = None \<longleftrightarrow> \<not> timestamp_occurs s"
proof
  assume n: "re_timestamp s = None"
  show "\<not> timestamp_occurs s"
  proof
    assume "timestamp_occurs s"
    then obtain pre ts post where s: "s = pre @ ts @ post" and t: "timestamp_text ts"
      unfolding timestamp_occurs_def by blast
    have "re_timestamp s \<noteq> None" unfolding s
    proof (induction pre)
      case Nil
      then show ?case using re_timestamp_here[OF t, of post] by simp
    next
      case (Cons c pre)
      then show ?case by (simp split: option.splits)
    qed
    with n show False by simp
  qed
next
  assume n: "\<not> timestamp_occurs s"
  then show "re_timestamp s = None"
  proof (induction s)
    case Nil
    then show ?case by simp
  next
    case (Cons c cs)
    have a: "\<not> timestamp_text (take 19 (c # cs))"
    proof
      assume "timestamp_text (take 19 (c # cs))"
      then have "timestamp_occurs (c # cs)"
        unfolding timestamp_occurs_def
        by (intro exI[of _ "[]"] exI[of _ "take 19 (c # cs)"] exI[of _ "drop 19 (c # cs)"])
          (simp del: take_Suc_Cons drop_Suc_Cons)
      with Cons.prems show False by simp
    qed
    have b: "\<not> timestamp_occurs cs"
    proof
      assume "timestamp_occurs cs"
      then obtain pre ts post where "cs = pre @ ts @ post" "timestamp_text ts"
        unfolding timestamp_occurs_def by blast
      then have "c # cs = (c # pre) @ ts @ post \<and> timestamp_text ts" by simp
      then have "timestamp_occurs (c # cs)" unfolding timestamp_occurs_def by blast
      with Cons.prems show False by simp
    qed
    from a have "re_datetime_sec (c # cs) = None" by (simp add: re_datetime_sec_None)
    with Cons.IH[OF b] show ?case by simp
  qed
qed

text \<open>
  Claim C7: for every input string in which the pattern YYYY/MM/DD HH:MM:SS does not
  occur, \<open>convertBackendTimestampPstToIst\<close> returns the input string unchanged.
\<close>

theorem convertBackendTimestampPstToIst_fallback:
  "\<not> timestamp_occurs rawTs \<Longrightarrow> convertBackendTimestampPstToIst LocalTZA rawTs = rawTs"
  by (simp add: convertBackendTimestampPstToIst_def re_timestamp_None_iff[symmetric])

subsection \<open>Years, months and days of a time value\<close>

lemma DayFromYear_pred: "DayFromYear (y - 1) = DayFromYear y - DaysInYear (y - 1)"
  using DayFromYear_step[of "y - 1"] by simp

lemma DayFromYear_less: "DayFromYear y < DayFromYear (y + 1)"
  using DayFromYear_step[of y] DaysInYear_bounds[of y] by simp

lemma DayFromYear_mono_nat: "DayFromYear y \<le> DayFromYear (y + int n)"
proof (induction n)
  case 0
  then show ?case by simp
next
  case (Suc n)
  have "DayFromYear (y + int n) < DayFromYear (y + int n + 1)" by (rule DayFromYear_less)
  with Suc show ?case by (simp add: algebra_simps)
qed

lemma DayFromYear_mono: "y \<le> z \<Longrightarrow> DayFromYear y \<le> DayFromYear z"
  using DayFromYear_mono_nat[of y "nat (z - y)"] by simp

lemma DayFromYear_strict: "y < z \<Longrightarrow> DayFromYear y < DayFromYear z"
  using DayFromYear_mono[of "y + 1" z] DayFromYear_less[of y] by simp

lemma year_down_spec: "DayFromYear (year_down d y) \<le> d"
proof (induction d y rule: year_down.induct)
  case (1 d y)
  show ?case
  proof (cases "d < DayFromYear y")
    case True
    with 1 show ?thesis by (subst year_down.simps) simp
  next
    case False
    then show ?thesis by (subst year_down.simps) simp
  qed
qed

lemma year_up_spec:
  "DayFromYear y \<le> d \<Longrightarrow>
     DayFromYear (year_up d y) \<le> d \<and> d < DayFromYear (year_up d y + 1)"
proof (induction d y rule: year_up.induct)
  case (1 d y)
  show ?case
  proof (cases "DayFromYear (y + 1) \<le> d")
    case True
    with 1 show ?thesis by (subst (1 2) year_up.simps) simp
  next
    case False
    with 1(2) show ?thesis by (subst (1 2) year_up.simps) simp
  qed
qed

lemma YearFromTime_spec:
  "DayFromYear (YearFromTime t) \<le> Day t \<and> Day t < DayFromYear (YearFromTime t + 1)"
  unfolding YearFromTime_def by (rule year_up_spec) (rule year_down_spec)

lemma YearFromTime_ge: "DayFromYear a \<le> Day t \<Longrightarrow> a \<le> YearFromTime t"
proof (rule ccontr)
  assume a: "DayFromYear a \<le> Day t" and "\<not> a \<le> YearFromTime t"
  then have "YearFromTime t + 1 \<le> a" by simp
  then have "DayFromYear (YearFromTime t + 1) \<le> DayFromYear a" by (rule DayFromYear_mono)
  with a YearFromTime_spec[of t] show False by simp
qed

lemma YearFromTime_less: "Day t < DayFromYear b \<Longrightarrow> YearFromTime t < b"
proof (rule ccontr)
  assume b: "Day t < DayFromYear b" and "\<not> YearFromTime t < b"
  then have "b \<le> YearFromTime t" by simp
  then have "DayFromYear b \<le> DayFromYear (YearFromTime t)" by (rule DayFromYear_mono)
  with b YearFromTime_spec[of t] show False by simp
qed

lemma YearFromTime_unique:
  "DayFromYear y \<le> Day t \<Longrightarrow> Day t < DayFromYear (y + 1) \<Longrightarrow> YearFromTime t = y"
  using YearFromTime_ge[of y t] YearFromTime_less[of t "y + 1"] by simp

lemma DayWithinYear_range:
  "0 \<le> DayWithinYear t \<and> DayWithinYear t < DaysInYear (YearFromTime t)"
  using YearFromTime_spec[of t] DayFromYear_step[of "YearFromTime t"]
  by (simp add: DayWithinYear_def)

lemma MonthFromTime_range: "0 \<le> MonthFromTime t \<and> MonthFromTime t \<le> 11"
  by (simp add: MonthFromTime_def Let_def)

lemma InLeapYear_cases: "InLeapYear t = 0 \<or> InLeapYear t = 1"
  by (simp add: InLeapYear_def)

lemma DayWithinYear_leap: "DayWithinYear t < 365 + InLeapYear t"
  using DayWithinYear_range[of t] DaysInYear_bounds[of "YearFromTime t"]
  by (simp add: InLeapYear_def split: if_splits)

lemma date_table:
  fixes d l :: int
  assumes "0 \<le> d" "d < 365 + l" "l = 0 \<or> l = 1"
  shows "1 \<le> (let m = (if d < 31 then 0
         else if d < 59 + l then 1
         else if d < 90 + l then 2
         else if d < 120 + l then 3
         else if d < 151 + l then 4
         else if d < 181 + l then 5
         else if d < 212 + l then 6
         else if d < 243 + l then 7
         else if d < 273 + l then 8
         else if d < 304 + l then 9
         else if d < 334 + l then 10
         else (11::int))
      in if m = 0 then d + 1
         else if m = 1 then d - 30
         else if m = 2 then d - 58 - l
         else if m = 3 then d - 89 - l
         else if m = 4 then d - 119 - l
         else if m = 5 then d - 150 - l
         else if m = 6 then d - 180 - l
         else if m = 7 then d - 211 - l
         else if m = 8 then d - 242 - l
         else if m = 9 then d - 272 - l
         else if m = 10 then d - 303 - l
         else d - 333 - l) \<and>
      (let m = (if d < 31 then 0
         else if d < 59 + l then 1
         else if d < 90 + l then 2
         else if d < 120 + l then 3
         else if d < 151 + l then 4
         else if d < 181 + l then 5
         else if d < 212 + l then 6
         else if d < 243 + l then 7
         else if d < 273 + l then 8
         else if d < 304 + l then 9
         else if d < 334 + l then 10
         else (11::int))
      in if m = 0 then d + 1
         else if m = 1 then d - 30
         else if m = 2 then d - 58 - l
         else if m = 3 then d - 89 - l
         else if m = 4 then d - 119 - l
         else if m = 5 then d - 150 - l
         else if m = 6 then d - 180 - l
         else if m = 7 then d - 211 - l
         else if m = 8 then d - 242 - l
         else if m = 9 then d - 272 - l
         else if m = 10 then d - 303 - l
         else d - 333 - l) \<le> 31"
  using assms by (simp add: Let_def) linarith

lemma DateFromTime_range: "1 \<le> DateFromTime t \<and> DateFromTime t \<le> 31"
  using date_table[OF _ DayWithinYear_leap[of t] InLeapYear_cases[of t]] DayWithinYear_range[of t]
  by (simp add: DateFromTime_def MonthFromTime_def Let_def)

lemma HourFromTime_range: "0 \<le> HourFromTime t \<and> HourFromTime t \<le> 23"
  by (simp add: HourFromTime_def) 

lemma MinFromTime_range: "0 \<le> MinFromTime t \<and> MinFromTime t \<le> 59"
  by (simp add: MinFromTime_def)

lemma SecFromTime_range: "0 \<le> SecFromTime t \<and> SecFromTime t \<le> 59"
  by (simp add: SecFromTime_def)

lemma dec_nat_small: "n < 10 \<Longrightarrow> dec_nat n = [digit_char n]"
  by (subst dec_nat.simps) (simp only: if_True)

lemma dec_nat_big: "\<not> n < 10 \<Longrightarrow> dec_nat n = dec_nat (n div 10) @ [digit_char (n mod 10)]"
  by (subst dec_nat.simps) (simp only: if_False)

lemma dec_nat_length_le: "n < 10 ^ k \<Longrightarrow> 0 < k \<Longrightarrow> length (dec_nat n) \<le> k"
proof (induction k arbitrary: n)
  case 0
  then show ?case by simp
next
  case (Suc k)
  show ?case
  proof (cases "n < 10")
    case True
    then show ?thesis by (simp add: dec_nat_small)
  next
    case False
    from Suc.prems(1) have d: "n div 10 < 10 ^ k"
      by (simp add: less_mult_imp_div_less mult.commute)
    have "0 < k"
    proof (rule ccontr)
      assume "\<not> 0 < k"
      then have "k = 0" by simp
      with Suc.prems(1) False show False by simp
    qed
    from Suc.IH[OF d this] show ?thesis by (simp add: dec_nat_big[OF False])
  qed
qed

lemma dec_nat_length_gt: "10 ^ k \<le> n \<Longrightarrow> k < length (dec_nat n)"
proof (induction k arbitrary: n)
  case 0
  show ?case by (cases "n < 10") (simp_all add: dec_nat_small dec_nat_big)
next
  case (Suc k)
  have "(10::nat) \<le> 10 ^ Suc k" by simp
  with Suc.prems have False: "\<not> n < 10" by linarith
  from Suc.prems have "10 ^ k \<le> n div 10"
    by (simp add: less_eq_div_iff_mult_less_eq mult.commute)
  from Suc.IH[OF this] show ?case by (simp add: dec_nat_big[OF False])
qed

lemma dec_nat_nonempty: "0 < length (dec_nat n)"
  by (cases "n < 10") (simp_all add: dec_nat_small dec_nat_big)

lemma pad2_length:
  assumes "0 \<le> n" "n \<le> 99"
  shows "length (padStart 2 CHR ''0'' (ToString (Some n))) = 2"
proof -
  have "nat n < 10 ^ 2" using assms by simp
  then have a: "length (dec_nat (nat n)) \<le> 2" by (rule dec_nat_length_le) simp
  have b: "0 < length (dec_nat (nat n))" by (rule dec_nat_nonempty)
  from a b assms show ?thesis by (simp add: padStart_def ToString_def)
qed

lemma pad2_two_digits:
  assumes "0 \<le> n" "n \<le> 99"
  shows "padStart 2 CHR ''0'' (ToString (Some n)) = two_digits n"
proof (cases "n < 10")
  case True
  then have "nat n < 10" and "n div 10 = 0" and "n mod 10 = n" using assms by simp_all
  then show ?thesis
    using assms by (simp add: padStart_def ToString_def dec_nat_small two_digits_def digit_char_def)
next
  case False
  then have big: "\<not> nat n < 10" by simp
  have small: "nat n div 10 < 10" using assms by simp
  have d: "nat (n div 10) = nat n div 10" using assms by (simp add: nat_div_distrib)
  have m: "nat (n mod 10) = nat n mod 10" using assms by (simp add: nat_mod_distrib)
  show ?thesis
    using assms
    by (simp add: padStart_def ToString_def dec_nat_big[OF big] dec_nat_small[OF small]
        two_digits_def d m)
qed

lemma DaysBeforeMonth_range:
  assumes "0 \<le> mn" "mn \<le> 11"
  shows "0 \<le> DaysBeforeMonth ym mn \<and> DaysBeforeMonth ym mn \<le> 335"
proof -
  define tab :: "int list" where "tab = [0, 31, 59, 90, 120, 151, 181, 212, 243, 273, 304, 334]"
  define x where "x = tab ! nat mn"
  have "nat mn < length tab" using assms by (simp add: tab_def)
  then have "tab ! nat mn \<in> set tab" by (rule nth_mem)
  then have x: "0 \<le> x \<and> x \<le> 334" unfolding x_def[symmetric] by (auto simp add: tab_def)
  have "DaysBeforeMonth ym mn = x + (if 2 \<le> mn \<and> DaysInYear ym = 366 then 1 else 0)"
    by (simp only: DaysBeforeMonth_def x_def tab_def)
  with x show ?thesis by simp
qed

lemma Day_ge:
  assumes "a * msPerDay \<le> t"
  shows "a \<le> Day t"
  using assms mult_div_mod_eq[of 86400000 t] pos_mod_bound[of 86400000 t]
  unfolding Day_def msPerDay_def by linarith

lemma Day_less:
  assumes "t < b * msPerDay"
  shows "Day t < b"
  using assms mult_div_mod_eq[of 86400000 t] pos_mod_sign[of 86400000 t]
  unfolding Day_def msPerDay_def by linarith

lemma DayFromYear_99: "DayFromYear 99 = - 683368"
  by (simp add: DayFromYear_def)

lemma DayFromYear_10007: "DayFromYear 10007 = 2935454"
  by (simp add: DayFromYear_def)

lemma MakeFullYear_range: "0 \<le> y \<Longrightarrow> y \<le> 9999 \<Longrightarrow> 100 \<le> MakeFullYear y \<and> MakeFullYear y \<le> 9999"
  by (simp add: MakeFullYear_def)

lemma converted_year_bounds:
  fixes y mo d hh mm ss :: int
  assumes tz: "\<And>t. \<bar>LocalTZA t\<bar> < msPerDay"
    and r: "0 \<le> y" "y \<le> 9999" "0 \<le> mo" "mo \<le> 99" "0 \<le> d" "d \<le> 99"
           "0 \<le> hh" "hh \<le> 99" "0 \<le> mm" "mm \<le> 99" "0 \<le> ss" "ss \<le> 99"
  shows "\<exists>t. new_Date (num_add (Date_UTC y (mo - 1) d (hh + PST_TO_UTC_H) mm ss)
                  (Some (UTC_TO_IST_H * MS_PER_HOUR + UTC_TO_IST_M * MS_PER_MIN))) = Some t
           \<and> t = MakeDate (MakeDay (MakeFullYear y) (mo - 1) d) (MakeTime hh mm ss 0)
                   + 8 * msPerHour + 5 * msPerHour + 30 * msPerMinute
           \<and> MakeFullYear y - 2 \<le> YearFromTime (LocalTime LocalTZA t)
           \<and> YearFromTime (LocalTime LocalTZA t) \<le> MakeFullYear y + 9"
proof -
  define y' where "y' = MakeFullYear y"
  define ym where "ym = y' + (mo - 1) div 12"
  define mn where "mn = (mo - 1) mod 12"
  define B where "B = DaysBeforeMonth ym mn"
  define F where "F = DayFromYear ym"
  define u where "u = (F + B + d - 1) * 86400000 + (hh + 8) * 3600000 + mm * 60000 + ss * 1000"
  define t where "t = u + 19800000"
  define z where "z = LocalTZA t"
  have y'r: "100 \<le> y'" "y' \<le> 9999"
    using MakeFullYear_range[OF r(1) r(2)] by (simp_all add: y'_def)
  have q: "- 1 \<le> (mo - 1) div 12" "(mo - 1) div 12 \<le> 8"
    using mult_div_mod_eq[of 12 "mo - 1"] pos_mod_bound[of 12 "mo - 1"] pos_mod_sign[of 12 "mo - 1"]
      r(3) r(4) by linarith+
  have mnr: "0 \<le> mn" "mn \<le> 11"
    using pos_mod_bound[of 12 "mo - 1"] pos_mod_sign[of 12 "mo - 1"] by (simp_all add: mn_def)
  have Br: "0 \<le> B" "B \<le> 335"
    using DaysBeforeMonth_range[OF mnr, of ym] by (simp_all add: B_def)
  have ymr: "y' - 1 \<le> ym" "ym \<le> y' + 8" using q by (simp_all add: ym_def)
  have F1: "DayFromYear (y' - 1) \<le> F" unfolding F_def using ymr(1) by (rule DayFromYear_mono)
  have F2: "F \<le> DayFromYear (y' + 8)" unfolding F_def using ymr(2) by (rule DayFromYear_mono)
  have "DayFromYear 99 \<le> DayFromYear (y' - 1)" using y'r(1) by (intro DayFromYear_mono) simp
  with F1 have F3: "- 683368 \<le> F" by (simp add: DayFromYear_99)
  have "DayFromYear (y' + 8) \<le> DayFromYear 10007" using y'r(2) by (intro DayFromYear_mono) simp
  with F2 have F4: "F \<le> 2935454" by (simp add: DayFromYear_10007)
  have "MakeDate (MakeDay (MakeFullYear y) (mo - 1) d) (MakeTime (hh + PST_TO_UTC_H) mm ss 0) = u"
    unfolding MakeDate_def MakeDay_def MakeTime_def Let_def u_def F_def B_def
        ym_def mn_def y'_def PST_TO_UTC_H_def msPerDay_def msPerHour_def msPerMinute_def
        msPerSecond_def
    by (simp add: algebra_simps)
  then have utc: "Date_UTC y (mo - 1) d (hh + PST_TO_UTC_H) mm ss = TimeClip u"
    by (simp only: Date_UTC_def)
  have ur1: "- 60000000000000 \<le> u"
    unfolding u_def using F3 Br r by (simp add: algebra_simps; linarith)
  have ur2: "u \<le> 260000000000000"
    unfolding u_def using F4 Br r by (simp add: algebra_simps; linarith)
  note ur = ur1 ur2
  from ur have cu: "TimeClip u = Some u" by (simp add: TimeClip_def)
  have ct: "TimeClip t = Some t" using ur by (simp add: TimeClip_def t_def)
  have exact: "to_double (u + 19800000) = u + 19800000"
    using ur by (intro to_double_exact) (simp add: abs_less_iff)
  have nd: "new_Date (num_add (Date_UTC y (mo - 1) d (hh + PST_TO_UTC_H) mm ss)
                  (Some (UTC_TO_IST_H * MS_PER_HOUR + UTC_TO_IST_M * MS_PER_MIN))) = Some t"
    using ct by (simp add: utc cu new_Date_def num_add_def exact t_def UTC_TO_IST_H_def
        MS_PER_HOUR_def UTC_TO_IST_M_def MS_PER_MIN_def)
  have tv: "t = MakeDate (MakeDay (MakeFullYear y) (mo - 1) d) (MakeTime hh mm ss 0)
                  + 8 * msPerHour + 5 * msPerHour + 30 * msPerMinute"
    unfolding MakeDate_def MakeDay_def MakeTime_def Let_def t_def u_def F_def B_def
        ym_def mn_def y'_def msPerDay_def msPerHour_def msPerMinute_def msPerSecond_def
    by (simp add: algebra_simps)
  have zr: "- 86400000 < z" "z < 86400000"
    using tz[of t] by (simp_all add: z_def msPerDay_def abs_less_iff)
  have lo: "(DayFromYear (y' - 1) - 2) * msPerDay \<le> t + z"
    unfolding msPerDay_def t_def u_def using F1 Br r zr by (simp add: algebra_simps; linarith)
  have hi: "t + z < (DayFromYear (y' + 8) + 439) * msPerDay"
    unfolding msPerDay_def t_def u_def using F2 Br r zr by (simp add: algebra_simps; linarith)
  have p2: "DayFromYear (y' - 2) \<le> DayFromYear (y' - 1) - 2"
    using DayFromYear_step[of "y' - 2"] DaysInYear_bounds[of "y' - 2"] by simp
  have e9: "DayFromYear (y' + 9) = DayFromYear (y' + 8) + DaysInYear (y' + 8)"
    using DayFromYear_step[of "y' + 8"] by (simp add: algebra_simps)
  have e10: "DayFromYear (y' + 10) = DayFromYear (y' + 9) + DaysInYear (y' + 9)"
    using DayFromYear_step[of "y' + 9"] by (simp add: algebra_simps)
  have p10: "DayFromYear (y' + 8) + 439 \<le> DayFromYear (y' + 10)"
    using e9 e10 DaysInYear_bounds[of "y' + 8"] DaysInYear_bounds[of "y' + 9"] by linarith
  have "DayFromYear (y' - 2) \<le> Day (t + z)" using Day_ge[OF lo] p2 by simp
  then have a: "y' - 2 \<le> YearFromTime (t + z)" by (rule YearFromTime_ge)
  have "Day (t + z) < DayFromYear (y' + 10)" using Day_less[OF hi] p10 by simp
  then have "YearFromTime (t + z) < y' + 10" by (rule YearFromTime_less)
  then have b: "YearFromTime (t + z) \<le> y' + 9" by simp
  from nd tv a b show ?thesis
    unfolding LocalTime_def z_def y'_def by blast
qed

subsection \<open>The conversion of the backend timestamp\<close>

lemma digit_value_range: "isDigit c \<Longrightarrow> 0 \<le> digit_value c \<and> digit_value c \<le> 9"
  by (auto simp add: isDigit_def digit_value_def)

lemma digit_value_9: "isDigit c \<Longrightarrow> digit_value c = 9 \<Longrightarrow> c = CHR ''9''"
  by (auto simp add: isDigit_def digit_value_def)

lemma Number_snoc: "Number (ds @ [c]) = 10 * Number ds + digit_value c"
  by (simp add: Number_def)

lemma Number_range: "list_all isDigit ds \<Longrightarrow> 0 \<le> Number ds \<and> Number ds < 10 ^ length ds"
proof (induction ds rule: rev_induct)
  case Nil
  then show ?case by (simp add: Number_def)
next
  case (snoc c ds)
  then have "0 \<le> Number ds \<and> Number ds < 10 ^ length ds" and "isDigit c" by simp_all
  with digit_value_range[of c] show ?case by (simp add: Number_snoc)
qed

lemma timestamp_text_groups:
  assumes "timestamp_text ts"
  shows "list_all isDigit (take 4 ts) \<and> list_all isDigit (take 2 (drop 5 ts))
         \<and> list_all isDigit (take 2 (drop 8 ts)) \<and> list_all isDigit (take 2 (drop 11 ts))
         \<and> list_all isDigit (take 2 (drop 14 ts)) \<and> list_all isDigit (take 2 (drop 17 ts))
         \<and> ts ! 4 = CHR ''/''"
proof -
  have l: "length ts = 19" using assms by (rule timestamp_text_length)
  then have "19 \<le> length ts" by simp
  then obtain c0 c1 c2 c3 c4 c5 c6 c7 c8 c9 c10 c11 c12 c13 c14 c15 c16 c17 c18 r
    where e: "ts = c0 # c1 # c2 # c3 # c4 # c5 # c6 # c7 # c8 # c9 # c10 # c11 # c12 # c13 # c14
                 # c15 # c16 # c17 # c18 # r"
    by (rule list19)
  from assms show ?thesis
    unfolding e by (simp add: timestamp_text_def matches_mask_def mask_char_def)
qed

lemma timestamp_groups_nth:
  "(ts # timestamp_groups ts) ! 1 = take 4 ts"
  "(ts # timestamp_groups ts) ! 2 = take 2 (drop 5 ts)"
  "(ts # timestamp_groups ts) ! 3 = take 2 (drop 8 ts)"
  "(ts # timestamp_groups ts) ! 4 = take 2 (drop 11 ts)"
  "(ts # timestamp_groups ts) ! 5 = take 2 (drop 14 ts)"
  "(ts # timestamp_groups ts) ! 6 = take 2 (drop 17 ts)"
  by (simp_all add: timestamp_groups_def datetime_groups_def)

lemma convert_same_match:
  "re_timestamp a = Some m \<Longrightarrow> re_timestamp b = Some m \<Longrightarrow>
     convertBackendTimestampPstToIst LocalTZA a = convertBackendTimestampPstToIst LocalTZA b"
  by (simp add: convertBackendTimestampPstToIst_def)

lemma Number_high:
  assumes "length ds = 4" "list_all isDigit ds" "9991 \<le> Number ds"
  shows "ds ! 0 = CHR ''9''"
proof -
  from assms(1) obtain a r1 where e1: "ds = a # r1" and l1: "length r1 = 3" by (cases ds) auto
  from l1 obtain b r2 where e2: "r1 = b # r2" and l2: "length r2 = 2" by (cases r1) auto
  from l2 obtain c r3 where e3: "r2 = c # r3" and l3: "length r3 = 1" by (cases r2) auto
  from l3 obtain d where e4: "r3 = [d]" by (cases r3) auto
  have ds: "ds = [a, b, c, d]" by (simp add: e1 e2 e3 e4)
  from assms(2) have dg: "isDigit a" "isDigit b" "isDigit c" "isDigit d" by (simp_all add: ds)
  have n: "Number ds = 1000 * digit_value a + 100 * digit_value b + 10 * digit_value c + digit_value d"
    by (simp add: ds Number_def)
  have "digit_value a = 9"
    using assms(3) digit_value_range[OF dg(1)] digit_value_range[OF dg(2)]
      digit_value_range[OF dg(3)] digit_value_range[OF dg(4)]
    unfolding n by linarith
  with dg(1) have "a = CHR ''9''" by (rule digit_value_9)
  then show ?thesis by (simp add: ds)
qed

text \<open>The text that a matched timestamp is converted to: the converted timestamp, which is
  the year in decimal and 15 more characters.\<close>

lemma convert_timestamp_shape:
  assumes tz: "\<And>t. \<bar>LocalTZA t\<bar> < msPerDay"
    and ts: "timestamp_text ts"
  shows "convertBackendTimestampPstToIst LocalTZA ts = converted_timestamp LocalTZA ts
     \<and> (\<exists>Y rest.
      convertBackendTimestampPstToIst LocalTZA ts = dec_nat (nat Y) @ CHR ''/'' # rest
      \<and> length rest = 14 \<and> 98 \<le> Y \<and> Y \<le> 10008
      \<and> (10000 \<le> Y \<longrightarrow> ts ! 0 = CHR ''9''))"
proof -
  have l: "length ts = 19" using ts by (rule timestamp_text_length)
  note dg = timestamp_text_groups[OF ts]
  define y where "y = Number (take 4 ts)"
  define mo where "mo = Number (take 2 (drop 5 ts))"
  define d where "d = Number (take 2 (drop 8 ts))"
  define hh where "hh = Number (take 2 (drop 11 ts))"
  define mm where "mm = Number (take 2 (drop 14 ts))"
  define ss where "ss = Number (take 2 (drop 17 ts))"
  have yr: "0 \<le> y" "y \<le> 9999"
    using Number_range[of "take 4 ts"] dg l by (simp_all add: y_def)
  have mor: "0 \<le> mo" "mo \<le> 99"
    using Number_range[of "take 2 (drop 5 ts)"] dg l by (simp_all add: mo_def)
  have dr: "0 \<le> d" "d \<le> 99"
    using Number_range[of "take 2 (drop 8 ts)"] dg l by (simp_all add: d_def)
  have hhr: "0 \<le> hh" "hh \<le> 99"
    using Number_range[of "take 2 (drop 11 ts)"] dg l by (simp_all add: hh_def)
  have mmr: "0 \<le> mm" "mm \<le> 99"
    using Number_range[of "take 2 (drop 14 ts)"] dg l by (simp_all add: mm_def)
  have ssr: "0 \<le> ss" "ss \<le> 99"
    using Number_range[of "take 2 (drop 17 ts)"] dg l by (simp_all add: ss_def)
  from converted_year_bounds[of LocalTZA y mo d hh mm ss, OF tz yr mor dr hhr mmr ssr]
  obtain t where
    nd: "new_Date (num_add (Date_UTC y (mo - 1) d (hh + PST_TO_UTC_H) mm ss)
                  (Some (UTC_TO_IST_H * MS_PER_HOUR + UTC_TO_IST_M * MS_PER_MIN))) = Some t"
    and tv: "t = MakeDate (MakeDay (MakeFullYear y) (mo - 1) d) (MakeTime hh mm ss 0)
                   + 8 * msPerHour + 5 * msPerHour + 30 * msPerMinute"
    and lo: "MakeFullYear y - 2 \<le> YearFromTime (LocalTime LocalTZA t)"
    and hi: "YearFromTime (LocalTime LocalTZA t) \<le> MakeFullYear y + 9"
    by blast
  define Y where "Y = YearFromTime (LocalTime LocalTZA t)"
  define rest where "rest =
      padStart 2 CHR ''0'' (ToString (Some (MonthFromTime (LocalTime LocalTZA t) + 1))) @ ''/''
      @ padStart 2 CHR ''0'' (ToString (Some (DateFromTime (LocalTime LocalTZA t)))) @ '' ''
      @ padStart 2 CHR ''0'' (ToString (Some (HourFromTime (LocalTime LocalTZA t)))) @ '':''
      @ padStart 2 CHR ''0'' (ToString (Some (MinFromTime (LocalTime LocalTZA t)))) @ '':''
      @ padStart 2 CHR ''0'' (ToString (Some (SecFromTime (LocalTime LocalTZA t))))"
  have fy: "100 \<le> MakeFullYear y" "MakeFullYear y \<le> 9999"
    using MakeFullYear_range[OF yr] by simp_all
  have Y1: "98 \<le> Y" using lo fy by (simp add: Y_def)
  have Y2: "Y \<le> 10008" using hi fy by (simp add: Y_def)
  have m: "re_timestamp ts = Some (ts # timestamp_groups ts)"
    using re_timestamp_here[OF ts, of "[]"] by simp
  have month: "to_double (MonthFromTime (LocalTime LocalTZA t) + 1)
                 = MonthFromTime (LocalTime LocalTZA t) + 1"
    using MonthFromTime_range[of "LocalTime LocalTZA t"] by (intro to_double_exact) simp
  have out: "convertBackendTimestampPstToIst LocalTZA ts = dec_nat (nat Y) @ CHR ''/'' # rest"
    unfolding convertBackendTimestampPstToIst_def m option.case Let_def timestamp_groups_nth
      y_def[symmetric] mo_def[symmetric] d_def[symmetric] hh_def[symmetric] mm_def[symmetric]
      ss_def[symmetric] nd
    using Y1 month
    by (simp add: getFullYear_def getMonth_def getDate_def getHours_def getMinutes_def
        getSeconds_def num_add_def rest_def Y_def[symmetric] ToString_def[of "Some Y"])
  have len: "length rest = 14"
    using MonthFromTime_range[of "LocalTime LocalTZA t"] DateFromTime_range[of "LocalTime LocalTZA t"]
      HourFromTime_range[of "LocalTime LocalTZA t"] MinFromTime_range[of "LocalTime LocalTZA t"]
      SecFromTime_range[of "LocalTime LocalTZA t"]
    by (simp add: rest_def pad2_length)
  have rest: "rest =
      two_digits (MonthFromTime (LocalTime LocalTZA t) + 1) @ ''/''
      @ two_digits (DateFromTime (LocalTime LocalTZA t)) @ '' ''
      @ two_digits (HourFromTime (LocalTime LocalTZA t)) @ '':''
      @ two_digits (MinFromTime (LocalTime LocalTZA t)) @ '':''
      @ two_digits (SecFromTime (LocalTime LocalTZA t))"
    using MonthFromTime_range[of "LocalTime LocalTZA t"] DateFromTime_range[of "LocalTime LocalTZA t"]
      HourFromTime_range[of "LocalTime LocalTZA t"] MinFromTime_range[of "LocalTime LocalTZA t"]
      SecFromTime_range[of "LocalTime LocalTZA t"]
    unfolding rest_def by (simp add: pad2_two_digits)
  have val: "convertBackendTimestampPstToIst LocalTZA ts = converted_timestamp LocalTZA ts"
    unfolding out rest converted_timestamp_def Let_def y_def[symmetric] mo_def[symmetric]
      d_def[symmetric] hh_def[symmetric] mm_def[symmetric] ss_def[symmetric] tv[symmetric]
      Y_def[symmetric]
    by simp
  have nine: "ts ! 0 = CHR ''9''" if "10000 \<le> Y"
  proof -
    from that hi have h: "9991 \<le> MakeFullYear y" by (simp add: Y_def)
    have "MakeFullYear y = y"
    proof (rule ccontr)
      assume "MakeFullYear y \<noteq> y"
      then have "MakeFullYear y = 1900 + y \<and> y \<le> 99" by (simp add: MakeFullYear_def split: if_splits)
      with h show False by simp
    qed
    with h have "9991 \<le> Number (take 4 ts)" by (simp add: y_def)
    from Number_high[OF _ _ this] dg l show ?thesis by simp
  qed
  from out len Y1 Y2 nine have "\<exists>Y rest.
      convertBackendTimestampPstToIst LocalTZA ts = dec_nat (nat Y) @ CHR ''/'' # rest
      \<and> length rest = 14 \<and> 98 \<le> Y \<and> Y \<le> 10008
      \<and> (10000 \<le> Y \<longrightarrow> ts ! 0 = CHR ''9'')"
    by blast
  with val show ?thesis by (rule conjI)
qed

lemma digit_char_not_slash: "k < 10 \<Longrightarrow> digit_char k \<noteq> CHR ''/''"
proof -
  assume "k < 10"
  then have "k < length ''0123456789''" by simp
  then have "''0123456789'' ! k \<in> set ''0123456789''" by (rule nth_mem)
  then show ?thesis unfolding digit_char_def by auto
qed

lemma dec_nat_10000:
  assumes "10000 \<le> n" "n \<le> 10008"
  shows "dec_nat n = ''1000'' @ [digit_char (n mod 10)]"
proof -
  have "n div 10 = 1000" using assms by simp
  moreover have "dec_nat 1000 = ''1000''" by (simp add: dec_nat.simps digit_char_def)
  moreover have "\<not> n < 10" using assms by simp
  ultimately show ?thesis by (simp add: dec_nat_big)
qed

text \<open>
  Claim C10: the pattern of \<open>convertBackendTimestampPstToIst\<close> has no anchor. For every
  input that has a timestamp \<open>ts\<close> of the form YYYY/MM/DD HH:MM:SS with text around it,
  \<open>ts\<close> being the leftmost one, the result is the converted timestamp of \<open>ts\<close>, which is
  the result for \<open>ts\<close> alone: the text around it is dropped, and the result is neither the
  input nor the input with \<open>ts\<close> converted in place. The host's time zone offset is taken
  below one day, as every time zone's is.
\<close>

theorem convertBackendTimestampPstToIst_drops_surroundings:
  assumes tz: "\<forall>t. \<bar>LocalTZA t\<bar> < msPerDay"
    and raw: "rawTs = pre @ ts @ post"
    and ts: "timestamp_text ts"
    and first: "\<forall>j<length pre. \<not> timestamp_at rawTs j"
    and extra: "pre @ post \<noteq> []"
  shows "convertBackendTimestampPstToIst LocalTZA rawTs = converted_timestamp LocalTZA ts
     \<and> convertBackendTimestampPstToIst LocalTZA rawTs = convertBackendTimestampPstToIst LocalTZA ts
     \<and> convertBackendTimestampPstToIst LocalTZA rawTs \<noteq> rawTs
     \<and> convertBackendTimestampPstToIst LocalTZA rawTs
          \<noteq> pre @ convertBackendTimestampPstToIst LocalTZA ts @ post"
proof -
  let ?o = "convertBackendTimestampPstToIst LocalTZA ts"
  have l: "length ts = 19" using ts by (rule timestamp_text_length)
  have "re_timestamp (pre @ ts @ post) = re_timestamp (ts @ post)"
  proof (rule re_timestamp_skip)
    fix j assume "j < length pre"
    with first show "\<not> timestamp_text (take 19 (drop j (pre @ ts @ post)))"
      by (simp add: timestamp_at_def raw)
  qed
  then have m1: "re_timestamp rawTs = Some (ts # timestamp_groups ts)"
    by (simp add: raw re_timestamp_here[OF ts])
  have m2: "re_timestamp ts = Some (ts # timestamp_groups ts)"
    using re_timestamp_here[OF ts, of "[]"] by simp
  have eq: "convertBackendTimestampPstToIst LocalTZA rawTs = ?o"
    using m1 m2 by (rule convert_same_match)
  from tz have tz': "\<And>t. \<bar>LocalTZA t\<bar> < msPerDay" by simp
  note both = convert_timestamp_shape[of LocalTZA ts, OF tz' ts]
  from both have val: "?o = converted_timestamp LocalTZA ts" by (rule conjunct1)
  from conjunct2[OF both] obtain Y rest where
    sh: "?o = dec_nat (nat Y) @ CHR ''/'' # rest \<and> length rest = 14 \<and> 98 \<le> Y \<and> Y \<le> 10008
      \<and> (10000 \<le> Y \<longrightarrow> ts ! 0 = CHR ''9'')"
    by (elim exE)
  from sh have out: "?o = dec_nat (nat Y) @ CHR ''/'' # rest" by (rule conjunct1)
  from sh have lr: "length rest = 14" by simp
  from sh have Y1: "98 \<le> Y" by simp
  from sh have Y2: "Y \<le> 10008" by simp
  from sh have nine: "10000 \<le> Y \<Longrightarrow> ts ! 0 = CHR ''9''" by simp
  have lraw: "length rawTs = 19 + length pre + length post" by (simp add: raw l)
  have ex: "0 < length pre + length post" using extra by (cases pre) simp_all
  have p3: "?o \<noteq> pre @ ?o @ post"
  proof
    assume "?o = pre @ ?o @ post"
    then have "length ?o = length (pre @ ?o @ post)" by (rule arg_cong)
    with ex show False by simp
  qed
  have p2: "?o \<noteq> rawTs"
  proof
    assume a: "?o = rawTs"
    then have la: "length ?o = length rawTs" by (rule arg_cong)
    have lo: "length ?o = length (dec_nat (nat Y)) + 15" by (simp add: out lr)
    show False
    proof (cases "Y < 10000")
      case True
      then have "nat Y < 10 ^ 4" using Y1 by simp
      then have "length (dec_nat (nat Y)) \<le> 4" by (rule dec_nat_length_le) simp
      with la lo lraw ex show False by simp
    next
      case False
      then have Yge: "10000 \<le> Y" by simp
      have n: "10000 \<le> nat Y" "nat Y \<le> 10008" using Yge Y2 by simp_all
      define k where "k = nat Y mod 10"
      have k: "k < 10" by (simp add: k_def)
      have o: "?o = CHR ''1'' # CHR ''0'' # CHR ''0'' # CHR ''0'' # digit_char k # CHR ''/'' # rest"
        by (simp add: out dec_nat_10000[OF n] k_def)
      have o1: "?o ! 1 = CHR ''0''" and o4: "?o ! 4 = digit_char k" and lo20: "length ?o = 20"
        by (simp_all add: o lr)
      from la lo20 lraw have one: "length pre + length post = 1" by simp
      have t0: "ts ! 0 = CHR ''9''" using Yge by (rule nine)
      have t4: "ts ! 4 = CHR ''/''" using timestamp_text_groups[OF ts] by simp
      show False
      proof (cases pre)
        case Nil
        then have "rawTs ! 4 = ts ! 4" by (simp add: raw nth_append l)
        with a o4 t4 digit_char_not_slash[OF k] show False by simp
      next
        case (Cons c pre')
        with one have "pre = [c]" by simp
        then have "rawTs ! 1 = ts ! 0" by (simp add: raw nth_append l)
        with a o1 t0 show False by simp
      qed
    qed
  qed
  from eq val p2 p3 show ?thesis by simp
qed

lemmas re_defs = re_datetime_sec_def re_datetime_def re_digits_def re_lit_def startsWith_def
  isDigit_def

theorem convertBackendTimestampPstToIst_fallback_witness:
  "convertBackendTimestampPstToIst (\<lambda>t. 19800000) ''2025/12/01 15:15'' = ''2025/12/01 15:15''"
proof -
  have "re_timestamp ''2025/12/01 15:15'' = None" by (simp add: re_defs)
  then have "\<not> timestamp_occurs ''2025/12/01 15:15''" by (rule iffD1[OF re_timestamp_None_iff])
  then show ?thesis by (rule convertBackendTimestampPstToIst_fallback)
qed

lemma year_backend_example: "YearFromTime 1764670542000 = 2025"
  by (simp add: year_defs date_defs)

lemma re_timestamp_example:
  "re_timestamp ''2025/12/01 15:15:42'' =
     Some [''2025/12/01 15:15:42'', ''2025'', ''12'', ''01'', ''15'', ''15'', ''42'']"
  by (simp add: re_defs)

lemma convert_example:
  "convertBackendTimestampPstToIst (\<lambda>t. 19800000) ''2025/12/01 15:15:42'' = ''2025/12/02 10:15:42''"
  unfolding convertBackendTimestampPstToIst_def re_timestamp_example option.case Let_def
  by (simp add: Number_def digit_value_def
      date_defs getter_defs month_defs year_backend_example string_defs)

lemma converted_timestamp_example:
  "converted_timestamp (\<lambda>t. 19800000) ''2025/12/01 15:15:42'' = ''2025/12/02 10:15:42''"
  unfolding converted_timestamp_def Let_def
  by (simp add: Number_def digit_value_def two_digits_def LocalTime_def
      date_defs month_defs year_backend_example HourFromTime_def MinFromTime_def SecFromTime_def
      string_defs)

theorem convertBackendTimestampPstToIst_drops_surroundings_witness:
  "convertBackendTimestampPstToIst (\<lambda>t. 19800000) ''created 2025/12/01 15:15:42 PST''
     = ''2025/12/02 10:15:42''
   \<and> convertBackendTimestampPstToIst (\<lambda>t. 19800000) ''created 2025/12/01 15:15:42 PST''
     = convertBackendTimestampPstToIst (\<lambda>t. 19800000) ''2025/12/01 15:15:42''
   \<and> convertBackendTimestampPstToIst (\<lambda>t. 19800000) ''created 2025/12/01 15:15:42 PST''
     \<noteq> ''created 2025/12/01 15:15:42 PST''
   \<and> convertBackendTimestampPstToIst (\<lambda>t. 19800000) ''created 2025/12/01 15:15:42 PST''
     \<noteq> ''created '' @ convertBackendTimestampPstToIst (\<lambda>t. 19800000) ''2025/12/01 15:15:42''
          @ '' PST''"
proof -
  have tz: "\<forall>t. \<bar>(\<lambda>t. 19800000) t :: int\<bar> < msPerDay" by (simp add: msPerDay_def)
  have raw: "''created 2025/12/01 15:15:42 PST'' = ''created '' @ ''2025/12/01 15:15:42'' @ '' PST''"
    by simp
  have ts: "timestamp_text ''2025/12/01 15:15:42''"
    by (simp add: timestamp_text_def matches_mask_def mask_char_def isDigit_def)
  have "list_all (\<lambda>j. \<not> timestamp_at ''created 2025/12/01 15:15:42 PST'' j) [0, 1, 2, 3, 4, 5, 6, 7]"
    by (simp add: timestamp_at_def timestamp_text_def matches_mask_def mask_char_def isDigit_def)
  moreover have "[0, 1, 2, 3, 4, 5, 6, 7] = [0..<length ''created '']"
    by (simp add: upt_rec)
  ultimately have first: "\<forall>j<length ''created ''. \<not> timestamp_at ''created 2025/12/01 15:15:42 PST'' j"
    by (simp only: list_all_iff set_upt atLeastLessThan_iff) simp
  have extra: "''created '' @ '' PST'' \<noteq> []" by simp
  from convertBackendTimestampPstToIst_drops_surroundings[of "\<lambda>t. 19800000", OF tz raw ts first extra]
  show ?thesis unfolding converted_timestamp_example .
qed

subsection \<open>Interval lines\<close>

lemma matches_mask_append:
  "matches_mask (p @ q) t \<longleftrightarrow>
     matches_mask p (take (length p) t) \<and> matches_mask q (drop (length p) t)"
proof
  assume "matches_mask (p @ q) t"
  then obtain us vs where t: "t = us @ vs" and l: "length us = length p"
    and a: "list_all2 mask_char p us" and b: "list_all2 mask_char q vs"
    unfolding matches_mask_def list_all2_append1 by blast
  from l a b show "matches_mask p (take (length p) t) \<and> matches_mask q (drop (length p) t)"
    by (simp add: t matches_mask_def)
next
  assume h: "matches_mask p (take (length p) t) \<and> matches_mask q (drop (length p) t)"
  then have "list_all2 mask_char (p @ q) (take (length p) t @ drop (length p) t)"
    unfolding matches_mask_def by (intro list_all2_appendI) simp_all
  then show "matches_mask (p @ q) t" by (simp add: matches_mask_def)
qed

lemma matches_mask_to: "matches_mask '' to '' x \<longleftrightarrow> x = '' to ''"
  by (auto simp add: matches_mask_def mask_char_def list_all2_Cons1)

lemma interval_text_iff:
  "interval_text s \<longleftrightarrow>
     datetime_text (take 16 s) \<and> take 4 (drop 16 s) = '' to '' \<and> datetime_text (drop 20 s)"
proof -
  have "''dddd/dd/dd dd:dd to dddd/dd/dd dd:dd'' = ''dddd/dd/dd dd:dd'' @ '' to '' @ ''dddd/dd/dd dd:dd''"
    by simp
  then have "interval_text s \<longleftrightarrow>
      matches_mask (''dddd/dd/dd dd:dd'' @ '' to '' @ ''dddd/dd/dd dd:dd'') s"
    by (simp only: interval_text_def)
  also have "\<dots> \<longleftrightarrow> datetime_text (take 16 s) \<and> take 4 (drop 16 s) = '' to ''
      \<and> datetime_text (drop 20 s)"
    unfolding matches_mask_append
    by (simp add: datetime_text_def matches_mask_to eval_nat_numeral)
  finally show ?thesis .
qed

lemma interval_text_length: "interval_text t \<Longrightarrow> length t = 36"
  using matches_mask_length[of "''dddd/dd/dd dd:dd to dddd/dd/dd dd:dd''" t]
  by (simp add: interval_text_def)

lemma datetime_text_length: "datetime_text t \<Longrightarrow> length t = 16"
  using matches_mask_length[of "''dddd/dd/dd dd:dd''" t] by (simp add: datetime_text_def)

lemma re_lit_to: "re_lit '' to '' s = Some r \<longleftrightarrow> take 4 s = '' to '' \<and> r = drop 4 s"
  by (simp add: re_lit_iff eval_nat_numeral)

lemma re_interval_tail_iff:
  "re_interval_tail s = Some g \<longleftrightarrow> interval_text s \<and> g = interval_groups s"
proof
  assume "re_interval_tail s = Some g"
  then obtain g1 s1 s2 g2 s3 where
    p: "re_datetime s = Some (g1, s1)" "re_lit '' to '' s1 = Some s2"
       "re_datetime s2 = Some (g2, s3)" "s3 = []" "g = g1 @ g2"
    unfolding re_interval_tail_def by (clarsimp simp add: bind_eq_Some_conv split: if_splits)
  from p(1) have a: "datetime_text (take 16 s)" "g1 = datetime_groups (take 16 s)" "s1 = drop 16 s"
    by (simp_all add: re_datetime_iff)
  from p(2) a(3) have b: "take 4 (drop 16 s) = '' to ''" "s2 = drop 20 s"
    by (simp_all add: re_lit_to)
  from p(3) b(2) have c: "datetime_text (take 16 (drop 20 s))"
      "g2 = datetime_groups (take 16 (drop 20 s))" "s3 = drop 36 s"
    by (simp_all add: re_datetime_iff)
  from c(3) p(4) have "length s \<le> 36" by simp
  then have d: "take 16 (drop 20 s) = drop 20 s" by simp
  from a b c d p(5) show "interval_text s \<and> g = interval_groups s"
    by (simp add: interval_text_iff interval_groups_def)
next
  assume h: "interval_text s \<and> g = interval_groups s"
  then have l: "length s = 36" by (simp add: interval_text_length)
  from h have i: "datetime_text (take 16 s)" "take 4 (drop 16 s) = '' to ''"
      "datetime_text (drop 20 s)"
    by (simp_all add: interval_text_iff)
  have d: "take 16 (drop 20 s) = drop 20 s" using l by simp
  have 1: "re_datetime s = Some (datetime_groups (take 16 s), drop 16 s)"
    using i(1) by (simp add: re_datetime_iff)
  have 2: "re_lit '' to '' (drop 16 s) = Some (drop 20 s)"
    using i(2) by (simp add: re_lit_to)
  have 3: "re_datetime (drop 20 s) = Some (datetime_groups (drop 20 s), [])"
    using i(3) l by (simp add: re_datetime_iff d)
  from h show "re_interval_tail s = Some g"
    by (simp add: re_interval_tail_def 1 2 3 interval_groups_def)
qed

lemma isWhiteSpace_not_digit: "isWhiteSpace c \<Longrightarrow> \<not> isDigit c"
  by (auto simp add: isWhiteSpace_def isDigit_def)

lemma isWhiteSpace_not_colon: "\<not> isWhiteSpace CHR '':''"
  by (simp add: isWhiteSpace_def)

lemma interval_text_first_digit: "interval_text (c # cs) \<Longrightarrow> isDigit c"
  by (simp add: interval_text_def matches_mask_def mask_char_def)

lemma interval_text_not_Nil: "\<not> interval_text []"
  by (simp add: interval_text_def matches_mask_def)

lemma re_interval_tail_None: "re_interval_tail s = None \<longleftrightarrow> \<not> interval_text s"
proof (cases "re_interval_tail s")
  case None
  then show ?thesis using re_interval_tail_iff[of s "interval_groups s"] by simp
next
  case (Some g)
  then show ?thesis using re_interval_tail_iff[of s g] by simp
qed

text \<open>White space, then the two date-times: the white space is what stands before the last
  36 characters.\<close>

lemma re_ws_tail_iff:
  "re_ws_tail s = Some g \<longleftrightarrow>
     (\<exists>ws t. s = ws @ t \<and> list_all isWhiteSpace ws \<and> interval_text t \<and> g = interval_groups t)"
proof (induction s)
  case Nil
  show ?case by (simp add: re_interval_tail_iff interval_text_not_Nil)
next
  case (Cons c cs)
  show ?case
  proof (cases "isWhiteSpace c")
    case True
    then have nt: "re_interval_tail (c # cs) = None"
      using interval_text_first_digit[of c cs] isWhiteSpace_not_digit[of c]
      by (auto simp add: re_interval_tail_None)
    have l: "re_ws_tail (c # cs) = re_ws_tail cs"
      using True nt by (simp split: option.splits)
    show ?thesis
    proof
      assume "re_ws_tail (c # cs) = Some g"
      then have "re_ws_tail cs = Some g" by (simp only: l)
      then obtain ws t where "cs = ws @ t" "list_all isWhiteSpace ws" "interval_text t"
          "g = interval_groups t"
        using Cons.IH by blast
      then have "c # cs = (c # ws) @ t \<and> list_all isWhiteSpace (c # ws) \<and> interval_text t
          \<and> g = interval_groups t"
        using True by simp
      then show "\<exists>ws t. c # cs = ws @ t \<and> list_all isWhiteSpace ws \<and> interval_text t
          \<and> g = interval_groups t"
        by blast
    next
      assume "\<exists>ws t. c # cs = ws @ t \<and> list_all isWhiteSpace ws \<and> interval_text t
          \<and> g = interval_groups t"
      then obtain ws t where h: "c # cs = ws @ t" "list_all isWhiteSpace ws" "interval_text t"
          "g = interval_groups t"
        by blast
      have "ws \<noteq> []"
      proof
        assume "ws = []"
        with h(1) h(3) have "interval_text (c # cs)" by simp
        with True interval_text_first_digit[of c cs] isWhiteSpace_not_digit[of c]
        show False by simp
      qed
      then obtain ws' where ws: "ws = c # ws'" and cs: "cs = ws' @ t"
        using h(1) by (cases ws) simp_all
      from h(2) ws have "list_all isWhiteSpace ws'" by simp
      with cs h(3) h(4) have "re_ws_tail cs = Some g" using Cons.IH by blast
      then show "re_ws_tail (c # cs) = Some g" by (simp only: l)
    qed
  next
    case False
    then have l: "re_ws_tail (c # cs) = re_interval_tail (c # cs)" by simp
    show ?thesis
    proof
      assume "re_ws_tail (c # cs) = Some g"
      then have "interval_text (c # cs) \<and> g = interval_groups (c # cs)"
        by (simp only: l re_interval_tail_iff)
      then have "c # cs = [] @ (c # cs) \<and> list_all isWhiteSpace [] \<and> interval_text (c # cs)
          \<and> g = interval_groups (c # cs)"
        by simp
      then show "\<exists>ws t. c # cs = ws @ t \<and> list_all isWhiteSpace ws \<and> interval_text t
          \<and> g = interval_groups t"
        by blast
    next
      assume "\<exists>ws t. c # cs = ws @ t \<and> list_all isWhiteSpace ws \<and> interval_text t
          \<and> g = interval_groups t"
      then obtain ws t where h: "c # cs = ws @ t" "list_all isWhiteSpace ws" "interval_text t"
          "g = interval_groups t"
        by blast
      have "ws = []"
      proof (cases ws)
        case Nil
        then show ?thesis .
      next
        case (Cons w ws')
        with h(1) h(2) have "isWhiteSpace c" by simp
        with False show ?thesis by simp
      qed
      with h have "interval_text (c # cs) \<and> g = interval_groups (c # cs)" by simp
      then show "re_ws_tail (c # cs) = Some g" by (simp only: l re_interval_tail_iff)
    qed
  qed
qed

lemma takeWhile_append_stop:
  "list_all P xs \<Longrightarrow> \<not> P y \<Longrightarrow> takeWhile P (xs @ y # ys) = xs"
  by (induction xs) auto

text \<open>A text has at most one reading as name, colon, white space and date-times.\<close>

lemma interval_split_unique:
  assumes e: "a1 @ '':'' @ ws1 @ t1 = a2 @ '':'' @ ws2 @ t2"
    and w: "list_all isWhiteSpace ws1" "list_all isWhiteSpace ws2"
    and t: "interval_text t1" "interval_text t2"
  shows "a1 = a2 \<and> ws1 = ws2 \<and> t1 = t2"
proof -
  have l: "length t1 = 36" "length t2 = 36" using t by (simp_all add: interval_text_length)
  have pe: "(a1 @ '':'' @ ws1) @ t1 = (a2 @ '':'' @ ws2) @ t2" using e by simp
  have c: "((a1 @ '':'' @ ws1) @ t1 = (a2 @ '':'' @ ws2) @ t2)
      = (a1 @ '':'' @ ws1 = a2 @ '':'' @ ws2 \<and> t1 = t2)"
    by (rule append_eq_append_conv) (simp add: l)
  from pe c have p: "a1 @ '':'' @ ws1 = a2 @ '':'' @ ws2" and tt: "t1 = t2"
    by blast+
  have r: "rev (a1 @ '':'' @ ws1) = rev (a2 @ '':'' @ ws2)" using p by (rule arg_cong)
  have r1: "rev (a1 @ '':'' @ ws1) = rev ws1 @ CHR '':'' # rev a1" by simp
  have r2: "rev (a2 @ '':'' @ ws2) = rev ws2 @ CHR '':'' # rev a2" by simp
  from r have "takeWhile isWhiteSpace (rev ws1 @ CHR '':'' # rev a1)
           = takeWhile isWhiteSpace (rev ws2 @ CHR '':'' # rev a2)"
    unfolding r1 r2 by (rule arg_cong)
  moreover have "takeWhile isWhiteSpace (rev ws1 @ CHR '':'' # rev a1) = rev ws1"
    using w(1) isWhiteSpace_not_colon by (intro takeWhile_append_stop) (simp_all add: list_all_iff)
  moreover have "takeWhile isWhiteSpace (rev ws2 @ CHR '':'' # rev a2) = rev ws2"
    using w(2) isWhiteSpace_not_colon by (intro takeWhile_append_stop) (simp_all add: list_all_iff)
  ultimately have ws: "ws1 = ws2" by simp
  with p have "a1 = a2" by simp
  with ws tt show ?thesis by simp
qed

lemma re_name_lazy_sound:
  "re_name_lazy nm s = Some r \<Longrightarrow>
     \<exists>a b g. s = a @ CHR '':'' # b \<and> list_all (\<lambda>c. \<not> isLineTerminator c) a
       \<and> re_ws_tail b = Some g \<and> r = (nm @ a) # g"
proof (induction s arbitrary: nm)
  case Nil
  then show ?case by simp
next
  case (Cons c cs)
  show ?case
  proof (cases "if c = CHR '':'' then re_ws_tail cs else None")
    case (Some g)
    then have c: "c = CHR '':''" and g: "re_ws_tail cs = Some g" by (simp_all split: if_splits)
    from Cons.prems Some have "r = nm # g" by simp
    with c g have "c # cs = [] @ CHR '':'' # cs \<and> list_all (\<lambda>c. \<not> isLineTerminator c) []
        \<and> re_ws_tail cs = Some g \<and> r = (nm @ []) # g"
      by simp
    then show ?thesis by blast
  next
    case None
    with Cons.prems have nl: "\<not> isLineTerminator c" and rec: "re_name_lazy (nm @ [c]) cs = Some r"
      by (simp_all split: if_splits)
    from Cons.IH[OF rec] obtain a b g where
      h: "cs = a @ CHR '':'' # b" "list_all (\<lambda>c. \<not> isLineTerminator c) a"
         "re_ws_tail b = Some g" "r = ((nm @ [c]) @ a) # g"
      by blast
    with nl have "c # cs = (c # a) @ CHR '':'' # b \<and> list_all (\<lambda>c. \<not> isLineTerminator c) (c # a)
        \<and> re_ws_tail b = Some g \<and> r = (nm @ (c # a)) # g"
      by simp
    then show ?thesis by blast
  qed
qed

lemma re_name_lazy_complete:
  "list_all (\<lambda>c. \<not> isLineTerminator c) a \<Longrightarrow> re_ws_tail b = Some g \<Longrightarrow>
     \<exists>r. re_name_lazy nm (a @ CHR '':'' # b) = Some r"
proof (induction a arbitrary: nm)
  case Nil
  then show ?case by simp
next
  case (Cons c a)
  then have nl: "\<not> isLineTerminator c" and rest: "list_all (\<lambda>c. \<not> isLineTerminator c) a"
    by simp_all
  from Cons.IH[OF rest Cons.prems(2), of "nm @ [c]"] obtain r
    where r: "re_name_lazy (nm @ [c]) (a @ CHR '':'' # b) = Some r" by blast
  show ?case
  proof (cases "if c = CHR '':'' then re_ws_tail (a @ CHR '':'' # b) else None")
    case None
    with nl r show ?thesis by simp
  next
    case (Some g')
    then show ?thesis by simp
  qed
qed

lemma re_name_lazy_split:
  assumes "list_all (\<lambda>c. \<not> isLineTerminator c) a" "list_all isWhiteSpace ws" "interval_text t"
  shows "re_name_lazy nm (a @ '':'' @ ws @ t) = Some ((nm @ a) # interval_groups t)"
proof -
  have g: "re_ws_tail (ws @ t) = Some (interval_groups t)"
    using assms(2,3) re_ws_tail_iff[of "ws @ t" "interval_groups t"] by blast
  from re_name_lazy_complete[OF assms(1) g, of nm] obtain r
    where r: "re_name_lazy nm (a @ CHR '':'' # ws @ t) = Some r" by blast
  from re_name_lazy_sound[OF r] obtain a' b' g' where
    h: "a @ CHR '':'' # ws @ t = a' @ CHR '':'' # b'" "re_ws_tail b' = Some g'" "r = (nm @ a') # g'"
    by blast
  from h(2) obtain ws' t' where
    k: "b' = ws' @ t'" "list_all isWhiteSpace ws'" "interval_text t'" "g' = interval_groups t'"
    using re_ws_tail_iff[of b' g'] by blast
  have "a @ '':'' @ ws @ t = a' @ '':'' @ ws' @ t'" using h(1) k(1) by simp
  from interval_split_unique[OF this assms(2) k(2) assms(3) k(3)]
  have "a = a'" "t = t'" by simp_all
  with r h(3) k(4) show ?thesis by simp
qed

lemma re_interval_iff:
  "re_interval s = Some m \<longleftrightarrow>
     (\<exists>a ws t. s = a @ '':'' @ ws @ t \<and> a \<noteq> [] \<and> list_all (\<lambda>c. \<not> isLineTerminator c) a
        \<and> list_all isWhiteSpace ws \<and> interval_text t \<and> m = s # a # interval_groups t)"
proof
  assume a: "re_interval s = Some m"
  then obtain c cs where s: "s = c # cs" by (cases s) (simp_all add: re_interval_def)
  from a s have nl: "\<not> isLineTerminator c"
    by (simp add: re_interval_def split: if_splits)
  from a s nl obtain r where r: "re_name_lazy [c] cs = Some r" and m: "m = s # r"
    by (auto simp add: re_interval_def)
  from re_name_lazy_sound[OF r] obtain a b g where
    h: "cs = a @ CHR '':'' # b" "list_all (\<lambda>c. \<not> isLineTerminator c) a"
       "re_ws_tail b = Some g" "r = ([c] @ a) # g"
    by blast
  from h(3) obtain ws t where
    k: "b = ws @ t" "list_all isWhiteSpace ws" "interval_text t" "g = interval_groups t"
    using re_ws_tail_iff[of b g] by blast
  have "s = (c # a) @ '':'' @ ws @ t \<and> c # a \<noteq> [] \<and> list_all (\<lambda>c. \<not> isLineTerminator c) (c # a)
      \<and> list_all isWhiteSpace ws \<and> interval_text t \<and> m = s # (c # a) # interval_groups t"
    using s h k nl m by simp
  then show "\<exists>a ws t. s = a @ '':'' @ ws @ t \<and> a \<noteq> [] \<and> list_all (\<lambda>c. \<not> isLineTerminator c) a
        \<and> list_all isWhiteSpace ws \<and> interval_text t \<and> m = s # a # interval_groups t"
    by blast
next
  assume "\<exists>a ws t. s = a @ '':'' @ ws @ t \<and> a \<noteq> [] \<and> list_all (\<lambda>c. \<not> isLineTerminator c) a
        \<and> list_all isWhiteSpace ws \<and> interval_text t \<and> m = s # a # interval_groups t"
  then obtain a ws t where
    h: "s = a @ '':'' @ ws @ t" "a \<noteq> []" "list_all (\<lambda>c. \<not> isLineTerminator c) a"
       "list_all isWhiteSpace ws" "interval_text t" "m = s # a # interval_groups t"
    by blast
  from h(2) obtain c a' where a: "a = c # a'" by (cases a) simp_all
  from h(3) a have nl: "\<not> isLineTerminator c" and rest: "list_all (\<lambda>c. \<not> isLineTerminator c) a'"
    by simp_all
  have "re_name_lazy [c] (a' @ '':'' @ ws @ t) = Some (([c] @ a') # interval_groups t)"
    using rest h(4) h(5) by (rule re_name_lazy_split)
  with nl h(1) h(6) a show "re_interval s = Some m" by (simp add: re_interval_def)
qed


lemma dropWhile_keeps: "c \<in> set xs \<Longrightarrow> \<not> P c \<Longrightarrow> c \<in> set (dropWhile P xs)"
  by (induction xs) auto

lemma trim_keeps: "c \<in> set s \<Longrightarrow> \<not> isWhiteSpace c \<Longrightarrow> c \<in> set (trim s)"
proof -
  assume a: "c \<in> set s" "\<not> isWhiteSpace c"
  then have "c \<in> set (dropWhile isWhiteSpace s)" by (rule dropWhile_keeps)
  then have "c \<in> set (rev (dropWhile isWhiteSpace s))" by simp
  then have "c \<in> set (dropWhile isWhiteSpace (rev (dropWhile isWhiteSpace s)))"
    using a(2) by (rule dropWhile_keeps)
  then show ?thesis by (simp add: trim_def)
qed

lemma takeWhile_first_colon:
  "CHR '':'' \<notin> set a \<Longrightarrow> takeWhile (\<lambda>c. c \<noteq> CHR '':'') (a @ '':'' @ b) = a"
  by (induction a) auto

lemma parseIntervalLine_Some:
  assumes "parseIntervalLine line = Some iv"
  shows "\<exists>a ws t. trim line = a @ '':'' @ ws @ t \<and> a \<noteq> []
      \<and> list_all (\<lambda>c. \<not> isLineTerminator c) a \<and> list_all isWhiteSpace ws \<and> interval_text t
      \<and> name iv = trim a"
proof -
  from assms obtain m where m: "re_interval (trim line) = Some m" and n: "name iv = trim (m ! 1)"
    by (auto simp add: parseIntervalLine_def split: option.splits)
  from m obtain a ws t where
    h: "trim line = a @ '':'' @ ws @ t" "a \<noteq> []" "list_all (\<lambda>c. \<not> isLineTerminator c) a"
       "list_all isWhiteSpace ws" "interval_text t" "m = trim line # a # interval_groups t"
    using re_interval_iff[of "trim line" m] by blast
  from n h(6) have "name iv = trim a" by simp
  with h show ?thesis by blast
qed

text \<open>
  Claim C5, as amended: for every line that \<open>parseIntervalLine\<close> parses, the trimmed
  line is a text \<open>a\<close>, a colon, white space and the two date-times, and the name returned
  is \<open>a\<close> trimmed: the text up to the colon before the date-times. Where \<open>a\<close> has no
  colon, it is the text of the line up to the first colon; where it has one, the name
  has one.
\<close>

theorem parseIntervalLine_name:
  "parseIntervalLine line = Some iv \<Longrightarrow>
     \<exists>a ws t. trim line = a @ '':'' @ ws @ t \<and> list_all isWhiteSpace ws \<and> interval_text t
       \<and> name iv = trim a
       \<and> (CHR '':'' \<notin> set a \<longrightarrow> a = takeWhile (\<lambda>c. c \<noteq> CHR '':'') (trim line))
       \<and> (CHR '':'' \<in> set a \<longrightarrow> CHR '':'' \<in> set (name iv))"
proof -
  assume "parseIntervalLine line = Some iv"
  from parseIntervalLine_Some[OF this] obtain a ws t where
    h: "trim line = a @ '':'' @ ws @ t" "list_all isWhiteSpace ws" "interval_text t"
       "name iv = trim a"
    by blast
  have 1: "CHR '':'' \<notin> set a \<longrightarrow> a = takeWhile (\<lambda>c. c \<noteq> CHR '':'') (trim line)"
    using takeWhile_first_colon[of a "ws @ t"] by (simp add: h(1))
  have 2: "CHR '':'' \<in> set a \<longrightarrow> CHR '':'' \<in> set (name iv)"
    using trim_keeps[of "CHR '':''" a] isWhiteSpace_not_colon by (simp add: h(4))
  from h 1 2 show ?thesis by blast
qed

lemmas interval_re_defs = re_interval_def re_interval_tail_def re_datetime_def re_digits_def
  re_lit_def startsWith_def isDigit_def isWhiteSpace_def isLineTerminator_def trim_def

lemma parse_two_colons:
  "parseIntervalLine ''Shukla: Prathama: 2025/12/04 15:14 to 2025/12/05 11:26''
     = Some \<lparr>name = ''Shukla: Prathama'', start = makeIstFromPortland 2025 12 4 15 14,
             end' = makeIstFromPortland 2025 12 5 11 26\<rparr>"
  by (simp add: parseIntervalLine_def interval_re_defs Number_def digit_value_def)

lemma parse_example:
  "parseIntervalLine ''Prathama: 2025/12/04 15:14 to 2025/12/05 11:26''
     = Some \<lparr>name = ''Prathama'', start = makeIstFromPortland 2025 12 4 15 14,
             end' = makeIstFromPortland 2025 12 5 11 26\<rparr>"
  by (simp add: parseIntervalLine_def interval_re_defs Number_def digit_value_def)



theorem parseIntervalLine_name_witness:
  "\<exists>a ws t. trim ''Prathama: 2025/12/04 15:14 to 2025/12/05 11:26'' = a @ '':'' @ ws @ t
       \<and> list_all isWhiteSpace ws \<and> interval_text t
       \<and> name \<lparr>name = ''Prathama'', start = makeIstFromPortland 2025 12 4 15 14,
             end' = makeIstFromPortland 2025 12 5 11 26\<rparr> = trim a
       \<and> (CHR '':'' \<notin> set a \<longrightarrow>
            a = takeWhile (\<lambda>c. c \<noteq> CHR '':'') (trim ''Prathama: 2025/12/04 15:14 to 2025/12/05 11:26''))
       \<and> (CHR '':'' \<in> set a \<longrightarrow>
            CHR '':'' \<in> set (name \<lparr>name = ''Prathama'', start = makeIstFromPortland 2025 12 4 15 14,
             end' = makeIstFromPortland 2025 12 5 11 26\<rparr>))"
  by (rule parseIntervalLine_name[OF parse_example])

text \<open>
  The claim as stated fails on a line with two colons before the date-times: the lazy
  \<open>(.+?)\<close> grows past the first colon, which no date-time follows, and the name
  returned contains it. The text up to the first colon is \<open>Shukla\<close>.
\<close>

theorem parseIntervalLine_name_colon_counterexample:
  "parseIntervalLine ''Shukla: Prathama: 2025/12/04 15:14 to 2025/12/05 11:26''
     = Some \<lparr>name = ''Shukla: Prathama'', start = makeIstFromPortland 2025 12 4 15 14,
             end' = makeIstFromPortland 2025 12 5 11 26\<rparr>
   \<and> CHR '':'' \<in> set ''Shukla: Prathama''
   \<and> trim (takeWhile (\<lambda>c. c \<noteq> CHR '':'')
         (trim ''Shukla: Prathama: 2025/12/04 15:14 to 2025/12/05 11:26'')) = ''Shukla''"
  by (simp add: parse_two_colons) (simp add: trim_def isWhiteSpace_def)



subsection \<open>Sections\<close>

lemma re_ws_colon_end_iff:
  "re_ws_colon_end s \<longleftrightarrow> (\<exists>ws. s = ws @ '':'' \<and> list_all isWhiteSpace ws)"
proof (induction s)
  case Nil
  then show ?case by simp
next
  case (Cons c cs)
  show ?case
  proof
    assume "re_ws_colon_end (c # cs)"
    then consider "isWhiteSpace c" "re_ws_colon_end cs" | "c = CHR '':''" "cs = []" by auto
    then show "\<exists>ws. c # cs = ws @ '':'' \<and> list_all isWhiteSpace ws"
    proof cases
      case 1
      with Cons.IH obtain ws where "cs = ws @ '':''" "list_all isWhiteSpace ws" by blast
      with 1(1) have "c # cs = (c # ws) @ '':'' \<and> list_all isWhiteSpace (c # ws)" by simp
      then show ?thesis by blast
    next
      case 2
      then have "c # cs = [] @ '':'' \<and> list_all isWhiteSpace []" by simp
      then show ?thesis by blast
    qed
  next
    assume "\<exists>ws. c # cs = ws @ '':'' \<and> list_all isWhiteSpace ws"
    then obtain ws where h: "c # cs = ws @ '':''" "list_all isWhiteSpace ws" by blast
    show "re_ws_colon_end (c # cs)"
    proof (cases ws)
      case Nil
      with h(1) show ?thesis by simp
    next
      case (Cons w ws')
      with h have "isWhiteSpace c" "cs = ws' @ '':''" "list_all isWhiteSpace ws'" by simp_all
      with Cons.IH show ?thesis by auto
    qed
  qed
qed

lemma re_details_at_iff:
  "re_details_at s \<longleftrightarrow>
     (\<exists>d ws. s = d @ ws @ '':'' \<and> details_word d
        \<and> list_all isWhiteSpace ws)"
proof
  assume a: "re_details_at s"
  then obtain ws where w: "drop 7 s = ws @ '':''" "list_all isWhiteSpace ws"
    unfolding re_details_at_def re_ws_colon_end_iff by blast
  have "s = take 7 s @ drop 7 s" by simp
  with w a have "s = take 7 s @ ws @ '':''
      \<and> details_word (take 7 s) \<and> list_all isWhiteSpace ws"
    by (simp add: re_details_at_def details_word_def)
  then show "\<exists>d ws. s = d @ ws @ '':'' \<and> details_word d
        \<and> list_all isWhiteSpace ws"
    by blast
next
  assume "\<exists>d ws. s = d @ ws @ '':'' \<and> details_word d
        \<and> list_all isWhiteSpace ws"
  then obtain d ws where h: "s = d @ ws @ '':''"
      "details_word d" "list_all isWhiteSpace ws"
    by blast
  from h(2) have m: "map toUpperAscii d = map toUpperAscii ''details''"
    by (simp only: details_word_def)
  then have "length (map toUpperAscii d) = length (map toUpperAscii ''details'')"
    by (rule arg_cong)
  then have l: "length d = 7" by simp
  have "re_ws_colon_end (ws @ '':'')" using h(3) re_ws_colon_end_iff[of "ws @ '':''"] by blast
  with h(1) l m show "re_details_at s" by (simp add: re_details_at_def)
qed

lemma re_details_iff: "re_details s \<longleftrightarrow> ends_in_details s"
proof (induction s)
  case Nil
  show ?case
    by (auto simp add: ends_in_details_def re_details_at_def)
next
  case (Cons c cs)
  show ?case
  proof
    assume "re_details (c # cs)"
    then consider "re_details_at (c # cs)" | "re_details cs" by auto
    then show "ends_in_details (c # cs)"
    proof cases
      case 1
      then obtain d ws where "c # cs = d @ ws @ '':''" "details_word d" "list_all isWhiteSpace ws"
        using re_details_at_iff[of "c # cs"] by blast
      then have "c # cs = [] @ d @ ws @ '':'' \<and> details_word d \<and> list_all isWhiteSpace ws"
        by simp
      then show ?thesis unfolding ends_in_details_def by blast
    next
      case 2
      with Cons.IH obtain p d ws where "cs = p @ d @ ws @ '':''"
          "details_word d" "list_all isWhiteSpace ws"
        unfolding ends_in_details_def by blast
      then have "c # cs = (c # p) @ d @ ws @ '':''
          \<and> details_word d \<and> list_all isWhiteSpace ws"
        by simp
      then show ?thesis unfolding ends_in_details_def by blast
    qed
  next
    assume "ends_in_details (c # cs)"
    then obtain p d ws where h: "c # cs = p @ d @ ws @ '':''"
        "details_word d" "list_all isWhiteSpace ws"
      unfolding ends_in_details_def by blast
    show "re_details (c # cs)"
    proof (cases p)
      case Nil
      with h have "c # cs = d @ ws @ '':'' \<and> details_word d \<and> list_all isWhiteSpace ws"
        by simp
      then have "re_details_at (c # cs)" using re_details_at_iff[of "c # cs"] by blast
      then show ?thesis by simp
    next
      case (Cons x p')
      with h have "cs = p' @ d @ ws @ '':''" by simp
      with h(2,3) have "ends_in_details cs" unfolding ends_in_details_def by blast
      with Cons.IH show ?thesis by simp
    qed
  qed
qed

lemma findIndex_None: "findIndex P xs = None \<longleftrightarrow> (\<forall>x\<in>set xs. \<not> P x)"
  by (induction xs) auto

lemma findIndex_first:
  "i < length xs \<Longrightarrow> P (xs ! i) \<Longrightarrow> (\<And>j. j < i \<Longrightarrow> \<not> P (xs ! j)) \<Longrightarrow> findIndex P xs = Some i"
proof (induction xs arbitrary: i)
  case Nil
  then show ?case by simp
next
  case (Cons x xs)
  show ?case
  proof (cases i)
    case 0
    with Cons.prems(2) show ?thesis by simp
  next
    case (Suc k)
    have nx: "\<not> P x" using Cons.prems(3)[of 0] Suc by simp
    have "findIndex P xs = Some k"
    proof (rule Cons.IH)
      show "k < length xs" using Cons.prems(1) Suc by simp
      show "P (xs ! k)" using Cons.prems(2) Suc by simp
      fix j assume "j < k"
      then show "\<not> P (xs ! j)" using Cons.prems(3)[of "Suc j"] Suc by simp
    qed
    with nx Suc show ?thesis by simp
  qed
qed

lemma extractSection_loop_takeWhile:
  "extractSection_loop lines startLabel i out =
     out @ takeWhile (\<lambda>l. \<not> section_end startLabel l) (drop i lines)"
proof (induction lines startLabel i out rule: extractSection_loop.induct)
  case (1 lines startLabel i out)
  show ?case
  proof (cases "i < length lines")
    case False
    then show ?thesis by (subst extractSection_loop.simps) simp
  next
    case True
    then have d: "drop i lines = lines ! i # drop (Suc i) lines" by (simp add: Cons_nth_drop_Suc)
    show ?thesis
    proof (cases "section_end startLabel (lines ! i)")
      case e: True
      then show ?thesis
        using True
        by (subst extractSection_loop.simps) (simp add: d section_end_def re_details_iff Let_def)
    next
      case e: False
      then have c: "\<not> (re_details (trim (lines ! i)) \<and> \<not> startsWith (trim (lines ! i)) startLabel)"
        by (simp add: section_end_def re_details_iff)
      have "extractSection_loop lines startLabel (i + 1) (out @ [lines ! i]) =
          (out @ [lines ! i]) @ takeWhile (\<lambda>l. \<not> section_end startLabel l) (drop (i + 1) lines)"
        using True c by (intro "1.IH") simp_all
      then show ?thesis
        using True c e by (subst extractSection_loop.simps) (simp add: d Let_def)
    qed
  qed
qed

text \<open>
  Claim C9: \<open>extractSection\<close> returns the empty sequence when no trimmed line starts with
  the label; otherwise, with \<open>i\<close> the index of the first such line, it returns the lines
  after \<open>i\<close> up to the first one that ends a section, without that one, and all lines
  after \<open>i\<close> when none ends a section.
\<close>

theorem extractSection_lines_between:
  "((\<forall>l\<in>set lines. \<not> startsWith (trim l) startLabel) \<longrightarrow> extractSection lines startLabel = [])
   \<and> (\<forall>i. i < length lines \<and> startsWith (trim (lines ! i)) startLabel
            \<and> (\<forall>j<i. \<not> startsWith (trim (lines ! j)) startLabel) \<longrightarrow>
          extractSection lines startLabel =
            takeWhile (\<lambda>l. \<not> section_end startLabel l) (drop (i + 1) lines))"
proof (intro conjI allI impI)
  assume "\<forall>l\<in>set lines. \<not> startsWith (trim l) startLabel"
  then have "findIndex (\<lambda>l. startsWith (trim l) startLabel) lines = None"
    by (simp add: findIndex_None)
  then show "extractSection lines startLabel = []" by (simp add: extractSection_def)
next
  fix i
  assume h: "i < length lines \<and> startsWith (trim (lines ! i)) startLabel
            \<and> (\<forall>j<i. \<not> startsWith (trim (lines ! j)) startLabel)"
  then have "findIndex (\<lambda>l. startsWith (trim l) startLabel) lines = Some i"
    by (intro findIndex_first) simp_all
  then show "extractSection lines startLabel =
            takeWhile (\<lambda>l. \<not> section_end startLabel l) (drop (i + 1) lines)"
    by (simp add: extractSection_def extractSection_loop_takeWhile)
qed

lemma ends_in_details_last: "ends_in_details s \<Longrightarrow> s \<noteq> [] \<and> last s = CHR '':''"
  by (auto simp add: ends_in_details_def)

lemma details_word_capitals: "details_word ''DETAILS''"
  unfolding details_word_def by code_simp

theorem extractSection_lines_between_witness:
  "extractSection
     [''Samvatsaram : Vishwaavasu'', ''Thithi details:'',
      ''Prathama: 2025/12/04 15:14 to 2025/12/05 11:26'', '''',
      ''Nakshatram DETAILS  :'', ''Rohini: 2025/12/04 10:00 to 2025/12/05 09:00'']
     ''Yogam details'' = []
   \<and> extractSection
     [''Samvatsaram : Vishwaavasu'', ''Thithi details:'',
      ''Prathama: 2025/12/04 15:14 to 2025/12/05 11:26'', '''',
      ''Nakshatram DETAILS  :'', ''Rohini: 2025/12/04 10:00 to 2025/12/05 09:00'']
     ''Thithi details'' = [''Prathama: 2025/12/04 15:14 to 2025/12/05 11:26'', '''']"
proof -
  let ?L = "[''Samvatsaram : Vishwaavasu'', ''Thithi details:'',
      ''Prathama: 2025/12/04 15:14 to 2025/12/05 11:26'', '''',
      ''Nakshatram DETAILS  :'', ''Rohini: 2025/12/04 10:00 to 2025/12/05 09:00'']"
  have h1: "\<forall>l\<in>set ?L. \<not> startsWith (trim l) ''Yogam details''"
    by (simp add: startsWith_def trim_def isWhiteSpace_def)
  have h2: "1 < length ?L \<and> startsWith (trim (?L ! 1)) ''Thithi details''
      \<and> (\<forall>j<1. \<not> startsWith (trim (?L ! j)) ''Thithi details'')"
    by (simp add: startsWith_def trim_def isWhiteSpace_def)
  have n1: "\<not> section_end ''Thithi details'' ''Prathama: 2025/12/04 15:14 to 2025/12/05 11:26''"
    using ends_in_details_last[of "''Prathama: 2025/12/04 15:14 to 2025/12/05 11:26''"]
    by (auto simp add: section_end_def trim_def isWhiteSpace_def)
  have n2: "\<not> section_end ''Thithi details'' ''''"
    using ends_in_details_last[of "''''"] by (auto simp add: section_end_def trim_def)
  have "''Nakshatram DETAILS  :'' = ''Nakshatram '' @ ''DETAILS'' @ ''  '' @ '':''
      \<and> details_word ''DETAILS'' \<and> list_all isWhiteSpace ''  ''"
    by (simp add: details_word_capitals isWhiteSpace_def)
  then have "ends_in_details ''Nakshatram DETAILS  :''"
    unfolding ends_in_details_def by blast
  then have y: "section_end ''Thithi details'' ''Nakshatram DETAILS  :''"
    by (simp add: section_end_def trim_def isWhiteSpace_def startsWith_def)
  have e: "takeWhile (\<lambda>l. \<not> section_end ''Thithi details'' l) (drop (1 + 1) ?L)
      = [''Prathama: 2025/12/04 15:14 to 2025/12/05 11:26'', '''']"
    using n1 n2 y by simp
  from extractSection_lines_between[of ?L "''Yogam details''"] h1
  have 1: "extractSection ?L ''Yogam details'' = []" by blast
  from extractSection_lines_between[of ?L "''Thithi details''"] h2
  have "extractSection ?L ''Thithi details''
      = takeWhile (\<lambda>l. \<not> section_end ''Thithi details'' l) (drop (1 + 1) ?L)"
    by blast
  with e have 2: "extractSection ?L ''Thithi details''
      = [''Prathama: 2025/12/04 15:14 to 2025/12/05 11:26'', '''']"
    by simp
  from 1 2 show ?thesis by simp
qed

end
